theory Spec2Isabelle
  imports Main "HOL-Library.Sublist" "HOL-Library.Multiset"
begin

section \<open>Python values used by the scan-dispatch engine\<close>

text \<open>
  Payloads (WFP blocks) are Python \<open>str\<close> values, modelled as \<open>string\<close>.
  \<open>str.split('\n')\<close> cuts at every line feed and always returns at least one piece
  (\<open>''.split('\n') == ['']\<close>).
\<close>

fun split_nl :: "string \<Rightarrow> string list" where
  "split_nl [] = [[]]"
| "split_nl (c # cs) =
     (if c = CHR 0x0A then [] # split_nl cs
      else (case split_nl cs of
              [] \<Rightarrow> [[c]]
            | l # ls \<Rightarrow> (c # l) # ls))"

text \<open>The inverse of splitting: \<open>'\n'.join(pieces)\<close>.\<close>

fun join_nl :: "string list \<Rightarrow> string" where
  "join_nl [] = []"
| "join_nl [l] = l"
| "join_nl (l # m # ls) = l @ CHR 0x0A # join_nl (m # ls)"

text \<open>Python's \<open>sub in s\<close> on strings: \<open>sub\<close> occurs in \<open>s\<close> as a contiguous block.\<close>

fun starts_with :: "string \<Rightarrow> string \<Rightarrow> bool" where
  "starts_with [] s = True"
| "starts_with (a # as) [] = False"
| "starts_with (a # as) (c # cs) = (a = c \<and> starts_with as cs)"

fun str_in :: "string \<Rightarrow> string \<Rightarrow> bool" where
  "str_in sub [] = (sub = [])"
| "str_in sub (c # cs) = (starts_with sub (c # cs) \<or> str_in sub cs)"

section \<open>threadedscanning.py: counting the files of a payload\<close>

definition WFP_FILE_START :: string where
  "WFP_FILE_START = ''file=''"

definition MAX_ALLOWED_THREADS :: int where
  "MAX_ALLOWED_THREADS = 30"

text \<open>
  The body of the \<open>for line in wfp.split('\n')\<close> loop of
  \<open>__count_files_in_wfp\<close>, with the running \<open>count\<close> as accumulator \<open>cnt\<close>.
\<close>

fun count_lines :: "string list \<Rightarrow> nat \<Rightarrow> nat" where
  "count_lines [] cnt = cnt"
| "count_lines (line # rest) cnt =
     count_lines rest (if str_in WFP_FILE_START line then cnt + 1 else cnt)"

text \<open>
  \<open>__count_files_in_wfp(wfp)\<close>; the argument may be \<open>None\<close>, and \<open>if wfp:\<close> is
  false for \<open>None\<close> and for the empty string.
\<close>

definition count_files_in_wfp :: "string option \<Rightarrow> nat" where
  "count_files_in_wfp payload =
     (case payload of
        None \<Rightarrow> 0
      | Some w \<Rightarrow> if w \<noteq> [] then count_lines (split_nl w) 0 else 0)"

section \<open>scanossapi.py: the API client\<close>

text \<open>
  Python objects that travel through the client: the decoded JSON body of a response,
  the raw text returned for XML formats, and \<open>None\<close>. Numbers are integers here.
  \<open>truthy\<close> is Python's truth value of such an object (\<open>if resp:\<close>).
\<close>

datatype pyval =
    PNone
  | PBool bool
  | PInt int
  | PStr string
  | PList "pyval list"
  | PDict "(string \<times> pyval) list"

fun truthy :: "pyval \<Rightarrow> bool" where
  "truthy PNone = False"
| "truthy (PBool b) = b"
| "truthy (PInt i) = (i \<noteq> 0)"
| "truthy (PStr s) = (s \<noteq> [])"
| "truthy (PList xs) = (xs \<noteq> [])"
| "truthy (PDict kvs) = (kvs \<noteq> [])"

text \<open>Truth value of an optional string argument (\<open>url if url else ...\<close>).\<close>

fun str_truthy :: "string option \<Rightarrow> bool" where
  "str_truthy None = False"
| "str_truthy (Some s) = (s \<noteq> [])"

text \<open>The string behind an argument that has passed the truth test.\<close>

fun str_of :: "string option \<Rightarrow> string" where
  "str_of None = []"
| "str_of (Some s) = s"

text \<open>\<open>str(n)\<close> for an integer: decimal digits, with a minus sign for negatives.\<close>

fun str_nat :: "nat \<Rightarrow> string" where
  "str_nat n =
     (if n < 10 then [''0123456789'' ! n]
      else str_nat (n div 10) @ [''0123456789'' ! (n mod 10)])"

declare str_nat.simps [simp del]

definition str_int :: "int \<Rightarrow> string" where
  "str_int i = (if i < 0 then CHR ''-'' # str_nat (nat (- i)) else str_nat (nat i))"

text \<open>
  A \<open>requests.Response\<close> as far as the client reads it: its truth value (\<open>not r\<close>;
  the library defines it as \<open>r.ok\<close>), \<open>r.status_code\<close>, \<open>r.text\<close>, and the result of
  \<open>r.json()\<close>, which raises (\<open>None\<close> here) when the body does not decode.
\<close>

record response =
  resp_ok :: bool
  resp_status_code :: int
  resp_text :: string
  resp_json :: "pyval option"

text \<open>What one call of \<open>requests.post\<close> does.\<close>

datatype post_outcome =
    Timeout
  | ConnectionError
  | OtherException
  | Returned "response option"

text \<open>The exceptions the client raises, one constructor per \<open>raise\<close>.\<close>

datatype py_exception =
    RequestTimedOut
  | RequestFailed
  | ResponseEmpty
  | HttpError int string
  | OSError string

text \<open>Lines the client prints to standard error, by message.\<close>

datatype api_msg =
    ErrTimeoutPosting
  | WarnTimeoutRetrying
  | ErrExceptionPosting
  | WarnNoResponseRetrying
  | WarnErrorCodeRetrying int
  | ErrInvalidJson
  | IgnoringResult string
  | WarnWritingBadJson string

record scanoss_api =
  api_quiet :: bool
  api_debug :: bool
  api_trace :: bool
  api_url :: string
  api_key :: "string option"
  api_scan_type :: "string option"
  api_sbom_path :: "string option"
  api_scan_format :: string
  api_flags :: "string option"
  api_timeout :: int
  api_headers :: "(string \<times> string) list"
  api_sbom :: "string option"

text \<open>
  \<open>load_sbom\<close>: reads the SBOM file when a path is given; \<open>read_file\<close> is the file
  system (\<open>None\<close>: \<open>open\<close> raises).
\<close>

definition load_sbom ::
  "(string \<Rightarrow> string option) \<Rightarrow> scanoss_api \<Rightarrow> py_exception + scanoss_api" where
  "load_sbom read_file self =
     (if str_truthy (api_sbom_path self) then
        (let self1 = (if \<not> str_truthy (api_scan_type self)
                      then self\<lparr>api_scan_type := Some ''identify''\<rparr> else self)
         in case read_file (str_of (api_sbom_path self)) of
              None \<Rightarrow> Inl (OSError (str_of (api_sbom_path self)))
            | Some content \<Rightarrow> Inr (self1\<lparr>api_sbom := Some content\<rparr>))
      else Inr self)"

text \<open>
  \<open>ScanossApi.__init__\<close>. \<open>scanoss_scan_url\<close> is the module constant
  \<open>SCANOSS_SCAN_URL\<close>, taken from the process environment at import.
\<close>

definition ScanossApi_init ::
  "string \<Rightarrow> (string \<Rightarrow> string option) \<Rightarrow> string option \<Rightarrow> string option \<Rightarrow> string option
   \<Rightarrow> string option \<Rightarrow> string option \<Rightarrow> string option \<Rightarrow> bool \<Rightarrow> bool \<Rightarrow> bool \<Rightarrow> int
   \<Rightarrow> py_exception + scanoss_api" where
  "ScanossApi_init scanoss_scan_url read_file scan_type sbom_path scan_format flags url key
       debug trace quiet timeout =
     load_sbom read_file
       \<lparr> api_quiet = quiet,
         api_debug = debug,
         api_trace = trace,
         api_url = (if str_truthy url then str_of url else scanoss_scan_url),
         api_key = key,
         api_scan_type = scan_type,
         api_sbom_path = sbom_path,
         api_scan_format = (if str_truthy scan_format then str_of scan_format else ''plain''),
         api_flags = flags,
         api_timeout = (if timeout > 5 then timeout else 120),
         api_headers = (if str_truthy key then [(''X-Session'', str_of key)] else []),
         api_sbom = None \<rparr>"

text \<open>
  cli.py, \<open>scan\<close>: the notice \<open>POST timeout (--timeout) too small ... Reverting to
  default\<close> is printed when this test holds.
\<close>

definition cli_timeout_too_small :: "int \<Rightarrow> bool" where
  "cli_timeout_too_small timeout = (timeout < 5)"

subsection \<open>ScanossApi.scan\<close>

text \<open>The arguments of \<open>requests.post\<close>.\<close>

record request =
  req_url :: string
  req_files :: "(string \<times> string \<times> string) list"
  req_data :: "(string \<times> string option) list"
  req_headers :: "(string \<times> string) list"
  req_timeout :: int

text \<open>
  What \<open>scan\<close> takes from its surroundings during one call: the attachment name from
  \<open>uuid.uuid1().hex\<close>, the outcome of the n-th \<open>requests.post\<close> of this call, the clock
  \<open>int(time.time())\<close>, whether \<open>open(name, 'w')\<close> succeeds, and Python's rendering of a
  string inside a printed dictionary.
\<close>

record scan_env =
  env_uuid_hex :: string
  env_post :: "nat \<Rightarrow> request \<Rightarrow> post_outcome"
  env_time :: int
  env_can_write :: "string \<Rightarrow> bool"
  env_repr :: "string \<Rightarrow> string"

text \<open>
  What one call leaves behind: the number of POSTs made, the \<open>time.sleep\<close> calls in
  order, the lines on standard error, and the files written (name, content).
\<close>

record scan_effects =
  posts :: nat
  sleeps :: "nat list"
  stderr :: "api_msg list"
  files_written :: "(string \<times> string) list"

definition no_effects :: scan_effects where
  "no_effects = \<lparr> posts = 0, sleeps = [], stderr = [], files_written = [] \<rparr>"

definition say :: "api_msg \<Rightarrow> scan_effects \<Rightarrow> scan_effects" where
  "say m eff = eff\<lparr>stderr := stderr eff @ [m]\<rparr>"

definition sleep :: "nat \<Rightarrow> scan_effects \<Rightarrow> scan_effects" where
  "sleep d eff = eff\<lparr>sleeps := sleeps eff @ [d]\<rparr>"

definition form_data :: "scanoss_api \<Rightarrow> string option \<Rightarrow> (string \<times> string option) list" where
  "form_data self context =
     (if str_truthy (api_sbom self)
      then [(''type'', api_scan_type self), (''assets'', api_sbom self)] else [])
     @ (if api_scan_format self \<noteq> [] then [(''format'', Some (api_scan_format self))] else [])
     @ (if str_truthy (api_flags self) then [(''flags'', api_flags self)] else [])
     @ (if str_truthy context then [(''context'', context)] else [])"

text \<open>
  One pass through the body of \<open>while retry <= 5\<close>, after \<open>retry += 1\<close>: the pass
  raises, leaves the loop with \<open>break\<close>, or falls through to the loop test with the
  value of \<open>r\<close> it leaves. \<open>not r\<close> holds when \<open>r\<close> is \<open>None\<close> and when the response
  object is false.
\<close>

datatype attempt_result =
    Raise py_exception
  | Break "response option"
  | Again "response option"

definition scan_attempt ::
  "scan_env \<Rightarrow> request \<Rightarrow> nat \<Rightarrow> scan_effects \<Rightarrow> attempt_result \<times> scan_effects" where
  "scan_attempt env req retry eff =
     (let eff1 = eff\<lparr>posts := posts eff + 1\<rparr>;
          conn_fail =
            (if retry > 5 then (Raise RequestTimedOut, say ErrTimeoutPosting eff1)
             else (Again None, sleep 5 (say WarnTimeoutRetrying eff1)));
          no_resp = (\<lambda>r.
            if retry > 5 then (Raise ResponseEmpty, eff1)
            else (Again r, sleep 5 (say WarnNoResponseRetrying eff1)))
      in case env_post env retry req of
           Timeout \<Rightarrow> conn_fail
         | ConnectionError \<Rightarrow> conn_fail
         | OtherException \<Rightarrow> (Raise RequestFailed, say ErrExceptionPosting eff1)
         | Returned r \<Rightarrow>
             (case r of
                None \<Rightarrow> no_resp r
              | Some resp \<Rightarrow>
                  (if \<not> resp_ok resp then no_resp r
                   else if resp_status_code resp \<ge> 400 then
                     (if retry > 5
                      then (Raise (HttpError (resp_status_code resp) (resp_text resp)), eff1)
                      else (Again r,
                            sleep 5 (say (WarnErrorCodeRetrying (resp_status_code resp)) eff1)))
                   else (Break r, eff1))))"

function scan_loop ::
  "scan_env \<Rightarrow> request \<Rightarrow> nat \<Rightarrow> response option \<Rightarrow> scan_effects
   \<Rightarrow> (py_exception + response option) \<times> scan_effects" where
  "scan_loop env req retry r eff =
     (if retry \<le> 5 then
        (case scan_attempt env req (retry + 1) eff of
           (Raise e, eff') \<Rightarrow> (Inl e, eff')
         | (Break r', eff') \<Rightarrow> (Inr r', eff')
         | (Again r', eff') \<Rightarrow> scan_loop env req (retry + 1) r' eff')
      else (Inr r, eff))"
  by pat_completeness auto

termination
  by (relation "measure (\<lambda>(env, req, retry, r, eff). 6 - retry)") auto

declare scan_loop.simps [simp del]

text \<open>Truth value of the optional integer \<open>scan_id\<close>.\<close>

fun int_truthy :: "int option \<Rightarrow> bool" where
  "int_truthy None = False"
| "int_truthy (Some i) = (i \<noteq> 0)"

fun str_int_opt :: "int option \<Rightarrow> string" where
  "str_int_opt None = ''None''"
| "str_int_opt (Some i) = str_int i"

definition bad_json_name :: "int option \<Rightarrow> int \<Rightarrow> string" where
  "bad_json_name scan_id ctime =
     (if int_truthy scan_id
      then ''bad_json-'' @ str_int_opt scan_id @ ''-'' @ str_int ctime @ ''.txt''
      else ''bad_json-'' @ str_int ctime @ ''.txt'')"

text \<open>\<open>str(scan_files)\<close> for \<open>{'file': (name, wfp)}\<close>.\<close>

definition str_scan_files :: "(string \<Rightarrow> string) \<Rightarrow> string \<Rightarrow> string \<Rightarrow> string" where
  "str_scan_files repr name w =
     ''{'' @ repr ''file'' @ '': ('' @ repr name @ '', '' @ repr w @ '')}''"

definition bad_json_content :: "(string \<Rightarrow> string) \<Rightarrow> string \<Rightarrow> string \<Rightarrow> string \<Rightarrow> string" where
  "bad_json_content repr name w body =
     ''---WFP Begin---'' @ [CHR 0x0A] @ str_scan_files repr name w @ [CHR 0x0A]
     @ ''---WFP End---'' @ [CHR 0x0A] @ ''---Bad JSON Begin---'' @ [CHR 0x0A]
     @ body @ ''---Bad JSON End---'' @ [CHR 0x0A]"

text \<open>The code after the retry loop: the empty-response test and the decoding.\<close>

definition decode_response ::
  "scanoss_api \<Rightarrow> scan_env \<Rightarrow> string \<Rightarrow> string \<Rightarrow> int option \<Rightarrow> response option
   \<Rightarrow> scan_effects \<Rightarrow> (py_exception + pyval) \<times> scan_effects" where
  "decode_response self env name w scan_id r eff =
     (case r of
        None \<Rightarrow> (Inl ResponseEmpty, eff)
      | Some resp \<Rightarrow>
          (if \<not> resp_ok resp then (Inl ResponseEmpty, eff)
           else if str_in ''xml'' (api_scan_format self) then (Inr (PStr (resp_text resp)), eff)
           else
             (case resp_json resp of
                Some json_resp \<Rightarrow> (Inr json_resp, eff)
              | None \<Rightarrow>
                  (let bad_json_file = bad_json_name scan_id (env_time env);
                       eff1 = say (IgnoringResult bad_json_file) (say ErrInvalidJson eff)
                   in if env_can_write env bad_json_file
                      then (Inr PNone,
                            eff1\<lparr>files_written := files_written eff1 @
                                   [(bad_json_file,
                                     bad_json_content (env_repr env) name w (resp_text resp))]\<rparr>)
                      else (Inr PNone, say (WarnWritingBadJson bad_json_file) eff1)))))"

definition build_request :: "scanoss_api \<Rightarrow> scan_env \<Rightarrow> string \<Rightarrow> string option \<Rightarrow> request" where
  "build_request self env w context =
     \<lparr> req_url = api_url self,
       req_files = [(''file'', (env_uuid_hex env @ ''.wfp'', w))],
       req_data = form_data self context,
       req_headers = api_headers self,
       req_timeout = api_timeout self \<rparr>"

text \<open>\<open>scan(wfp, context, scan_id)\<close>: the value returned or the exception raised.\<close>

definition scan ::
  "scanoss_api \<Rightarrow> scan_env \<Rightarrow> string \<Rightarrow> string option \<Rightarrow> int option
   \<Rightarrow> (py_exception + pyval) \<times> scan_effects" where
  "scan self env w context scan_id =
     (case scan_loop env (build_request self env w context) 0 None no_effects of
        (Inl e, eff) \<Rightarrow> (Inl e, eff)
      | (Inr r, eff) \<Rightarrow>
          decode_response self env (env_uuid_hex env @ ''.wfp'') w scan_id r eff)"

subsection \<open>Classifying what a POST attempt did\<close>

text \<open>
  The retry policy speaks of attempts that fail in a way the client retries: a timeout
  or connection error, no response object (or a false one), or a status of 400 or more.
  Any other exception from the POST is a failure too, raised at once.
\<close>

definition retryable_failure :: "post_outcome \<Rightarrow> bool" where
  "retryable_failure out =
     (case out of
        Timeout \<Rightarrow> True
      | ConnectionError \<Rightarrow> True
      | OtherException \<Rightarrow> False
      | Returned None \<Rightarrow> True
      | Returned (Some resp) \<Rightarrow> \<not> resp_ok resp \<or> resp_status_code resp \<ge> 400)"

definition failed_attempt :: "post_outcome \<Rightarrow> bool" where
  "failed_attempt out = (out = OtherException \<or> retryable_failure out)"

subsection \<open>A client, responses and surroundings for concrete runs\<close>

definition example_api :: scanoss_api where
  "example_api =
     \<lparr> api_quiet = False, api_debug = False, api_trace = False,
       api_url = ''https://osskb.org/api/scan/direct'', api_key = None,
       api_scan_type = None, api_sbom_path = None, api_scan_format = ''plain'',
       api_flags = None, api_timeout = 120, api_headers = [], api_sbom = None \<rparr>"

definition ok_response :: response where
  "ok_response =
     \<lparr> resp_ok = True, resp_status_code = 200, resp_text = ''{\"a.c\": []}'',
       resp_json = Some (PDict [(''a.c'', PList [])]) \<rparr>"


definition example_env :: "(nat \<Rightarrow> post_outcome) \<Rightarrow> bool \<Rightarrow> scan_env" where
  "example_env outcomes can_write =
     \<lparr> env_uuid_hex = ''ab12'',
       env_post = (\<lambda>n req. outcomes n),
       env_time = 1700000000,
       env_can_write = (\<lambda>name. can_write),
       env_repr = (\<lambda>s. [CHR 0x27] @ s @ [CHR 0x27]) \<rparr>"

definition retry_env :: scan_env where
  "retry_env =
     example_env (\<lambda>n. if n < 5 then ConnectionError else Returned (Some ok_response)) True"

definition down_env :: scan_env where
  "down_env = example_env (\<lambda>n. Timeout) True"



section \<open>threadedscanning.py: the threaded dispatcher\<close>

text \<open>
  The program counter of one worker thread inside \<open>worker_post\<close>. Every access to
  shared data (the stop event, the queue, the output queue, the counter under its lock,
  the error flag) is a step of its own, so that the steps of different threads can be
  interleaved at will. In the handler \<open>except Exception\<close> the variable \<open>wfp\<close> always
  holds the payload taken from the queue, since nothing before the assignment raises
  anything but \<open>queue.Empty\<close>.
\<close>

datatype wpc =
    WLoop                    \<comment> \<open>at \<open>while not self._stop_event.is_set()\<close>\<close>
  | WCheck                   \<comment> \<open>at \<open>if not self.inputs.empty()\<close>\<close>
  | WGet                     \<comment> \<open>at \<open>self.inputs.get(timeout=5)\<close>\<close>
  | WScan string             \<comment> \<open>at the count and \<open>self.scanapi.scan(wfp, ...)\<close>\<close>
  | WPut string nat pyval    \<comment> \<open>at \<open>if resp: self.output.put(resp)\<close>\<close>
  | WBar string nat          \<comment> \<open>at \<open>self.update_bar(count)\<close>\<close>
  | WDone string             \<comment> \<open>at \<open>self.inputs.task_done()\<close> of the \<open>try\<close> block\<close>
  | WExcept string           \<comment> \<open>in \<open>except Exception\<close>, at \<open>self._errors = True\<close>\<close>
  | WExceptDone string       \<comment> \<open>in \<open>except Exception\<close>, at \<open>if wfp: ...task_done()\<close>\<close>
  | WExit                    \<comment> \<open>the loop is left\<close>
  | WCrashed                 \<comment> \<open>an exception has left the handler\<close>

text \<open>The program counter of the thread that calls \<open>run\<close> (and \<open>complete\<close>).\<close>

datatype mpc =
    MIdle                    \<comment> \<open>\<open>run\<close> not called\<close>
  | MRun                     \<comment> \<open>at \<open>qsize = self.inputs.qsize()\<close> and the sizing\<close>
  | MSpawn nat               \<comment> \<open>at iteration \<open>i\<close> of \<open>for i in range(0, self.nb_threads)\<close>\<close>
  | MWait                    \<comment> \<open>at \<open>if wait: self.complete()\<close>\<close>
  | MJoin                    \<comment> \<open>at \<open>self.inputs.join()\<close>\<close>
  | MStop                    \<comment> \<open>at \<open>self._stop_event.set()\<close>\<close>
  | MJoinThreads             \<comment> \<open>at the loop of \<open>t.join(timeout=5)\<close>\<close>
  | MReturn                  \<comment> \<open>at \<open>return False if self._errors else True\<close>\<close>
  | MReturned bool           \<comment> \<open>\<open>run\<close> has returned this value\<close>

text \<open>Lines of the dispatcher on standard error, by message (trace lines left out).\<close>

datatype ts_msg =
    WarnThreadsTooLarge int
  | DebugQueueSmaller nat int
  | DebugStarting int nat
  | ErrRunningThreaded
  | NoMessageAvailable
  | ErrRunningScan

text \<open>
  The object, the two queues of its class and its threads. \<open>inputs\<close> and
  \<open>unfinished\<close> are the content and the \<open>unfinished_tasks\<close> counter of the input
  \<open>queue.Queue\<close>, \<open>output_q\<close> is the content of the queue \<open>output\<close>; \<open>workers\<close>
  holds the program counter of every thread whose \<open>start\<close> succeeded. The progress
  bar is display only and left out; \<open>bar_count\<close> is \<open>_bar_count\<close>.

  The fields from \<open>api_calls\<close> on are history variables: they record what has happened
  and no step reads them. \<open>posted\<close> lists the payloads handed to \<open>scan\<close>,
  \<open>scanned_ok\<close> those for which \<open>scan\<close> returned, \<open>scan_failed\<close> those for which it
  raised, \<open>err_events\<close> counts the executions of \<open>self._errors = True\<close>,
  \<open>spawn_failed\<close> tells whether a \<open>start\<close> raised, and \<open>leaked\<close> counts the
  handler runs that skipped \<open>task_done\<close>.
\<close>

record ts_state =
  scanapi :: scanoss_api
  debug :: bool
  trace :: bool
  quiet :: bool
  nb_threads :: int
  bar_count :: nat
  errors :: bool
  stop_event :: bool
  threads :: "nat list"
  inputs :: "string list"
  unfinished :: nat
  output_q :: "pyval list"
  ts_stderr :: "ts_msg list"
  main :: mpc
  workers :: "wpc list"
  api_calls :: nat
  posted :: "string list"
  scanned_ok :: "string list"
  scan_failed :: "string list"
  err_events :: nat
  spawn_failed :: bool
  leaked :: nat

text \<open>\<open>print_msg\<close>, \<open>print_debug\<close> and \<open>print_stderr\<close>.\<close>

definition print_stderr :: "ts_msg \<Rightarrow> ts_state \<Rightarrow> ts_state" where
  "print_stderr m s = s\<lparr>ts_stderr := ts_stderr s @ [m]\<rparr>"

definition print_msg :: "ts_msg \<Rightarrow> ts_state \<Rightarrow> ts_state" where
  "print_msg m s = (if \<not> quiet s then print_stderr m s else s)"

definition print_debug :: "ts_msg \<Rightarrow> ts_state \<Rightarrow> ts_state" where
  "print_debug m s = (if debug s then print_stderr m s else s)"

text \<open>
  The queues \<open>inputs\<close> and \<open>output\<close> are attributes of the class: they are
  created once, with the class, every object shares them, and \<open>__init__\<close> does not
  touch them. An object therefore finds them as earlier objects have left them: with
  the payloads still queued, with the tasks that were dequeued and never marked done
  (\<open>unfinished_tasks\<close> counts these and the queued payloads), and with the responses
  collected so far.
\<close>

record class_queues =
  cq_inputs :: "string list"
  cq_undone :: nat
  cq_output :: "pyval list"

text \<open>The two queues as the class creates them.\<close>

definition new_queues :: class_queues where
  "new_queues = \<lparr> cq_inputs = [], cq_undone = 0, cq_output = [] \<rparr>"

text \<open>
  \<open>ThreadedScanning.__init__\<close>, for an object created when the queues of the class
  are in the state \<open>cq\<close>. Only the attributes of the object are set.
\<close>

definition ThreadedScanning_init ::
  "class_queues \<Rightarrow> scanoss_api \<Rightarrow> bool \<Rightarrow> bool \<Rightarrow> bool \<Rightarrow> int \<Rightarrow> ts_state" where
  "ThreadedScanning_init cq api dbg trc qt n =
     (let self =
        \<lparr> scanapi = api, debug = dbg, trace = trc, quiet = qt, nb_threads = n,
          bar_count = 0, errors = False, stop_event = False, threads = [],
          inputs = cq_inputs cq, unfinished = length (cq_inputs cq) + cq_undone cq,
          output_q = cq_output cq, ts_stderr = [],
          main = MIdle, workers = [],
          api_calls = 0, posted = [], scanned_ok = [], scan_failed = [],
          err_events = 0, spawn_failed = False, leaked = 0 \<rparr>
      in if n > MAX_ALLOWED_THREADS
         then (print_msg (WarnThreadsTooLarge n) self)\<lparr>nb_threads := MAX_ALLOWED_THREADS\<rparr>
         else self)"

text \<open>\<open>queue_add\<close>: \<open>Queue.put\<close> appends and counts one more unfinished task.\<close>

definition queue_add :: "ts_state \<Rightarrow> string \<Rightarrow> ts_state" where
  "queue_add s w = s\<lparr>inputs := inputs s @ [w], unfinished := unfinished s + 1\<rparr>"

text \<open>\<open>update_bar(amount)\<close> with the defaults \<open>create=False\<close>, under the lock.\<close>

definition update_bar :: "nat \<Rightarrow> ts_state \<Rightarrow> ts_state" where
  "update_bar amount s = s\<lparr>bar_count := bar_count s + amount\<rparr>"


text \<open>
  What a run takes from its surroundings: the environment of the n-th call of
  \<open>scan\<close>, whether the \<open>start\<close> of the i-th thread succeeds, the identifier
  \<open>threading.get_ident()\<close> of the i-th worker, and the argument \<open>wait\<close> of \<open>run\<close>.
\<close>

record world =
  w_env :: "nat \<Rightarrow> scan_env"
  w_start_ok :: "nat \<Rightarrow> bool"
  w_ident :: "nat \<Rightarrow> int"
  w_wait :: bool

text \<open>One step of worker \<open>i\<close>, which is at \<open>pc\<close>.\<close>

definition set_pc :: "nat \<Rightarrow> wpc \<Rightarrow> ts_state \<Rightarrow> ts_state" where
  "set_pc i pc s = s\<lparr>workers := (workers s)[i := pc]\<rparr>"

fun worker_post :: "world \<Rightarrow> nat \<Rightarrow> wpc \<Rightarrow> ts_state \<Rightarrow> ts_state" where
  "worker_post W i WLoop s =
     (if stop_event s then set_pc i WExit s else set_pc i WCheck s)"
| "worker_post W i WCheck s =
     (if inputs s \<noteq> [] then set_pc i WGet s else set_pc i WLoop s)"
| "worker_post W i WGet s =
     (case inputs s of
        [] \<Rightarrow> set_pc i WLoop (print_stderr NoMessageAvailable s)
      | w # rest \<Rightarrow> set_pc i (WScan w) (s\<lparr>inputs := rest\<rparr>))"
| "worker_post W i (WScan w) s =
     (let cnt = count_files_in_wfp (Some w);
          s1 = s\<lparr>api_calls := api_calls s + 1, posted := posted s @ [w]\<rparr>
      in case fst (scan (scanapi s) (w_env W (api_calls s)) w None (Some (w_ident W i))) of
           Inl e \<Rightarrow> set_pc i (WExcept w) (s1\<lparr>scan_failed := scan_failed s @ [w]\<rparr>)
         | Inr resp \<Rightarrow> set_pc i (WPut w cnt resp) (s1\<lparr>scanned_ok := scanned_ok s @ [w]\<rparr>))"
| "worker_post W i (WPut w cnt resp) s =
     set_pc i (WBar w cnt) (if truthy resp then s\<lparr>output_q := output_q s @ [resp]\<rparr> else s)"
| "worker_post W i (WBar w cnt) s = set_pc i (WDone w) (update_bar cnt s)"
| "worker_post W i (WDone w) s =
     (if unfinished s = 0 then set_pc i (WExcept w) s
      else set_pc i WLoop (s\<lparr>unfinished := unfinished s - 1\<rparr>))"
| "worker_post W i (WExcept w) s =
     set_pc i (WExceptDone w)
       ((print_stderr ErrRunningScan s)\<lparr>errors := True, err_events := err_events s + 1\<rparr>)"
| "worker_post W i (WExceptDone w) s =
     (if w \<noteq> [] then
        (if unfinished s = 0 then set_pc i WCrashed s
         else set_pc i WLoop (s\<lparr>unfinished := unfinished s - 1\<rparr>))
      else set_pc i WLoop (s\<lparr>leaked := leaked s + 1\<rparr>))"
| "worker_post W i WExit s = s"
| "worker_post W i WCrashed s = s"

text \<open>One step of the thread inside \<open>run\<close> and \<open>complete\<close>.\<close>

fun run :: "world \<Rightarrow> mpc \<Rightarrow> ts_state \<Rightarrow> ts_state" where
  "run W MIdle s = s"
| "run W MRun s =
     (let qsize = length (inputs s) in
      if int qsize < nb_threads s
      then (print_debug (DebugQueueSmaller qsize (nb_threads s)) s)
             \<lparr>nb_threads := int qsize, main := MSpawn 0\<rparr>
      else (print_debug (DebugStarting (nb_threads s) qsize) s)\<lparr>main := MSpawn 0\<rparr>)"
| "run W (MSpawn i) s =
     (if int i < nb_threads s then
        (let s1 = s\<lparr>threads := threads s @ [i]\<rparr> in
         if w_start_ok W i
         then s1\<lparr>workers := workers s1 @ [WLoop], main := MSpawn (i + 1)\<rparr>
         else (print_stderr ErrRunningThreaded s1)
                \<lparr>errors := True, err_events := err_events s1 + 1, spawn_failed := True,
                 main := MWait\<rparr>)
      else s\<lparr>main := MWait\<rparr>)"
| "run W MWait s = (if w_wait W then s\<lparr>main := MJoin\<rparr> else s\<lparr>main := MReturn\<rparr>)"
| "run W MJoin s = (if unfinished s = 0 then s\<lparr>main := MStop\<rparr> else s)"
| "run W MStop s = s\<lparr>stop_event := True, main := MJoinThreads\<rparr>"
| "run W MJoinThreads s = s\<lparr>main := MReturn\<rparr>"
| "run W MReturn s = s\<lparr>main := MReturned (if errors s then False else True)\<rparr>"
| "run W (MReturned b) s = s"

text \<open>
  The scheduler picks the thread that makes the next step. A worker that does not
  exist, or a thread that waits or has finished, leaves the state as it is.
\<close>

datatype tid = Main | Worker nat

fun step :: "world \<Rightarrow> ts_state \<Rightarrow> tid \<Rightarrow> ts_state" where
  "step W s Main = run W (main s) s"
| "step W s (Worker i) =
     (if i < length (workers s) then worker_post W i (workers s ! i) s else s)"

definition exec :: "world \<Rightarrow> tid list \<Rightarrow> ts_state \<Rightarrow> ts_state" where
  "exec W sched s = foldl (step W) s sched"

text \<open>
  The state in which \<open>run\<close> is entered: an object created with \<open>nb_threads = n\<close>
  when the queues of the class are in the state \<open>cq\<close>, the payloads \<open>q\<close> added
  with \<open>queue_add\<close>, and the caller at the first statement of \<open>run\<close>. No thread of
  another object is running.
\<close>

definition loaded ::
  "class_queues \<Rightarrow> scanoss_api \<Rightarrow> bool \<Rightarrow> bool \<Rightarrow> bool \<Rightarrow> int \<Rightarrow> string list \<Rightarrow> ts_state" where
  "loaded cq api dbg trc qt n q = foldl queue_add (ThreadedScanning_init cq api dbg trc qt n) q"

definition entered ::
  "class_queues \<Rightarrow> scanoss_api \<Rightarrow> bool \<Rightarrow> bool \<Rightarrow> bool \<Rightarrow> int \<Rightarrow> string list \<Rightarrow> ts_state" where
  "entered cq api dbg trc qt n q = (loaded cq api dbg trc qt n q)\<lparr>main := MRun\<rparr>"

subsection \<open>Concrete runs\<close>

text \<open>
  A world for concrete runs: the n-th \<open>scan\<close> call meets the environment \<open>envs n\<close>,
  every \<open>start\<close> succeeds or every \<open>start\<close> raises, and worker \<open>i\<close> has the
  identifier \<open>i + 1\<close>.
\<close>

definition example_world :: "(nat \<Rightarrow> scan_env) \<Rightarrow> bool \<Rightarrow> bool \<Rightarrow> world" where
  "example_world envs start_ok wait =
     \<lparr> w_env = envs, w_start_ok = (\<lambda>i. start_ok), w_ident = (\<lambda>i. int i + 1), w_wait = wait \<rparr>"

text \<open>An environment in which every POST returns the well-formed response.\<close>

definition good_env :: scan_env where
  "good_env = example_env (\<lambda>n. Returned (Some ok_response)) True"

text \<open>
  The caller's four steps up to the wait for the queue when one thread is started
  (sizing, one \<open>start\<close>, end of the start-up loop, entry into \<open>complete\<close>).
\<close>

definition start_one :: "tid list" where
  "start_one = [Main, Main, Main, Main]"

text \<open>
  The caller's four steps from the wait for the queue to the return (\<open>join\<close>, the stop
  event, the joins of the threads, \<open>return\<close>).
\<close>

definition finish :: "tid list" where
  "finish = [Main, Main, Main, Main]"

text \<open>
  The steps of worker 0 from the head of its loop and back for one item: six when
  \<open>scan\<close> raises, seven when it returns.
\<close>

definition item_fails :: "tid list" where
  "item_fails = [Worker 0, Worker 0, Worker 0, Worker 0, Worker 0, Worker 0]"

definition item_succeeds :: "tid list" where
  "item_succeeds = [Worker 0, Worker 0, Worker 0, Worker 0, Worker 0, Worker 0, Worker 0]"

subsection \<open>What holds in every state of a run\<close>

text \<open>
  Sums over the worker threads. A worker is in flight while it holds a dequeued payload
  for which \<open>task_done\<close> has neither been called nor skipped; \<open>pending_bar\<close> is the
  file count it has still to add to the counter, \<open>to_post\<close> the payload it has
  dequeued and not yet handed to \<open>scan\<close>, and \<open>excepting\<close> marks the worker that is
  about to set the error flag.
\<close>

fun in_flight :: "wpc \<Rightarrow> nat" where
  "in_flight (WScan w) = 1"
| "in_flight (WPut w cnt resp) = 1"
| "in_flight (WBar w cnt) = 1"
| "in_flight (WDone w) = 1"
| "in_flight (WExcept w) = 1"
| "in_flight (WExceptDone w) = 1"
| "in_flight pc = 0"

fun pending_bar :: "wpc \<Rightarrow> nat" where
  "pending_bar (WPut w cnt resp) = cnt"
| "pending_bar (WBar w cnt) = cnt"
| "pending_bar pc = 0"

fun to_post :: "wpc \<Rightarrow> string multiset" where
  "to_post (WScan w) = {#w#}"
| "to_post pc = {#}"

fun excepting :: "wpc \<Rightarrow> nat" where
  "excepting (WExcept w) = 1"
| "excepting pc = 0"

definition total :: "(wpc \<Rightarrow> 'a::comm_monoid_add) \<Rightarrow> wpc list \<Rightarrow> 'a" where
  "total f ws = sum_list (map f ws)"

text \<open>The same sum without worker \<open>i\<close>.\<close>

definition others :: "(wpc \<Rightarrow> 'a::comm_monoid_add) \<Rightarrow> nat \<Rightarrow> wpc list \<Rightarrow> 'a" where
  "others f i ws = total f (take i ws) + total f (drop (Suc i) ws)"

text \<open>
  The caller is past \<open>self.inputs.join()\<close>: at the stop event or the joins of the
  threads, or, when \<open>run\<close> was called with \<open>wait\<close>, at or after its \<open>return\<close>.
\<close>

fun drained :: "world \<Rightarrow> mpc \<Rightarrow> bool" where
  "drained W MStop = True"
| "drained W MJoinThreads = True"
| "drained W MReturn = w_wait W"
| "drained W (MReturned b) = w_wait W"
| "drained W pc = False"

text \<open>The caller is before the end of the start-up loop.\<close>

fun spawning :: "mpc \<Rightarrow> bool" where
  "spawning MIdle = True"
| "spawning MRun = True"
| "spawning (MSpawn i) = True"
| "spawning pc = False"

text \<open>\<open>run\<close> has returned.\<close>

fun returned :: "mpc \<Rightarrow> bool" where
  "returned (MReturned b) = True"
| "returned pc = False"

text \<open>
  The bookkeeping of the input queue: the unfinished tasks are the queued payloads, the
  payloads in flight, those whose \<open>task_done\<close> was skipped, and the \<open>e\<close> tasks
  left undone before the object was created; past the wait for the queue nothing is
  unfinished; and the stop event is set only when nothing is unfinished.
\<close>

definition inv_queue :: "world \<Rightarrow> nat \<Rightarrow> ts_state \<Rightarrow> bool" where
  "inv_queue W e s =
     (unfinished s = length (inputs s) + total in_flight (workers s) + leaked s + e
      \<and> (drained W (main s) \<longrightarrow> unfinished s = 0)
      \<and> (stop_event s \<longrightarrow> unfinished s = 0))"

text \<open>The sum of the file counts of a list of payloads.\<close>

definition file_total :: "string list \<Rightarrow> nat" where
  "file_total ws = sum_list (map (\<lambda>w. count_files_in_wfp (Some w)) ws)"

text \<open>
  The counter, with the counts still to be added, is the sum of the file counts of the
  payloads for which \<open>scan\<close> has returned.
\<close>

definition inv_bar :: "ts_state \<Rightarrow> bool" where
  "inv_bar s = (bar_count s + total pending_bar (workers s) = file_total (scanned_ok s))"

text \<open>
  Every payload of the queue \<open>q\<close> at the call of \<open>run\<close> is still queued, or dequeued
  and about to be handed to \<open>scan\<close>, or has been handed to \<open>scan\<close> once; and \<open>scan\<close>
  has returned or raised for each payload handed to it.
\<close>

definition inv_post :: "string list \<Rightarrow> ts_state \<Rightarrow> bool" where
  "inv_post q s =
     (mset (posted s) + mset (inputs s) + total to_post (workers s) = mset q
      \<and> mset (posted s) = mset (scanned_ok s) + mset (scan_failed s))"

text \<open>
  The error flag is set exactly when \<open>self._errors = True\<close> has been executed; each
  \<open>scan\<close> that raised and each \<open>start\<close> that raised leads to one such execution,
  done or about to be done.
\<close>

definition inv_err :: "ts_state \<Rightarrow> bool" where
  "inv_err s =
     (errors s = (0 < err_events s)
      \<and> err_events s + total excepting (workers s) =
          length (scan_failed s) + (if spawn_failed s then 1 else 0)
      \<and> (spawning (main s) \<longrightarrow> \<not> spawn_failed s))"

text \<open>
  When \<open>run\<close> was called with \<open>wait\<close> and has returned, the value returned is the
  negation of the error flag, also later on.
\<close>

definition inv_ret :: "world \<Rightarrow> ts_state \<Rightarrow> bool" where
  "inv_ret W s = (w_wait W \<longrightarrow> (case main s of MReturned b \<Rightarrow> b = (\<not> errors s) | _ \<Rightarrow> True))"

text \<open>
  The pool size the sizing code arrives at for a request of \<open>n\<close> threads and a queue
  of depth \<open>d\<close>.
\<close>

definition pool_size :: "int \<Rightarrow> nat \<Rightarrow> int" where
  "pool_size n d = min (min n MAX_ALLOWED_THREADS) (int d)"

fun is_thread_warning :: "ts_msg \<Rightarrow> bool" where
  "is_thread_warning (WarnThreadsTooLarge n) = True"
| "is_thread_warning m = False"

text \<open>
  The sizing and the start-up loop, for a request of \<open>n\<close> threads in quiet mode \<open>qt\<close>
  on the queue \<open>q\<close>: the warning about the request is on standard error exactly when
  \<open>n\<close> is above the cap and quiet mode is off; during the loop as many workers run as
  iterations are done; afterwards their number is the pool size (0 for a negative one)
  unless a \<open>start\<close> has raised, and then it is the index of the \<open>start\<close> that
  raised, below the pool size, and the error flag is set.
\<close>

definition inv_pool :: "world \<Rightarrow> bool \<Rightarrow> int \<Rightarrow> string list \<Rightarrow> ts_state \<Rightarrow> bool" where
  "inv_pool W qt n q s =
     (filter is_thread_warning (ts_stderr s) =
        (if n > MAX_ALLOWED_THREADS \<and> \<not> qt then [WarnThreadsTooLarge n] else [])
      \<and> (case main s of
            MIdle \<Rightarrow> True
          | MRun \<Rightarrow>
              nb_threads s = min n MAX_ALLOWED_THREADS \<and> workers s = []
              \<and> length (inputs s) = length q \<and> \<not> spawn_failed s
          | MSpawn i \<Rightarrow>
              nb_threads s = pool_size n (length q) \<and> length (workers s) = i
              \<and> int i \<le> max 0 (pool_size n (length q)) \<and> \<not> spawn_failed s
              \<and> (\<forall>j<i. w_start_ok W j)
          | _ \<Rightarrow>
              nb_threads s = pool_size n (length q)
              \<and> int (length (workers s)) \<le> max 0 (pool_size n (length q))
              \<and> (\<forall>j<length (workers s). w_start_ok W j)
              \<and> (spawn_failed s \<longleftrightarrow> (\<exists>j. int j < pool_size n (length q) \<and> \<not> w_start_ok W j))
              \<and> (spawn_failed s \<longrightarrow>
                    errors s \<and> int (length (workers s)) < pool_size n (length q)
                    \<and> \<not> w_start_ok W (length (workers s)))
              \<and> (\<not> spawn_failed s \<longrightarrow>
                    int (length (workers s)) = max 0 (pool_size n (length q)))))"

text \<open>
  The number of steps of the caller that are left, at most, before \<open>run\<close> has returned,
  when nothing makes it wait.
\<close>

fun rank :: "mpc \<Rightarrow> nat" where
  "rank MIdle = 8"
| "rank MRun = 7"
| "rank (MSpawn i) = 6"
| "rank MWait = 5"
| "rank MJoin = 4"
| "rank MStop = 3"
| "rank MJoinThreads = 2"
| "rank MReturn = 1"
| "rank (MReturned b) = 0"



text \<open>
  A run in which no thread has been started, with \<open>u\<close> unfinished tasks: no
  \<open>scan\<close> has been called, and the caller is at the first \<open>start\<close>, at
  \<open>self.inputs.join()\<close>, or before them.
\<close>

definition inv_nopool :: "nat \<Rightarrow> ts_state \<Rightarrow> bool" where
  "inv_nopool u s =
     (workers s = [] \<and> posted s = [] \<and> scan_failed s = [] \<and> unfinished s = u
      \<and> 4 \<le> rank (main s)
      \<and> main s \<noteq> MIdle \<and> (\<forall>i. main s = MSpawn i \<longrightarrow> i = 0))"

text \<open>
  A run on the queue \<open>['']\<close> with a \<open>scan\<close> that always raises: every worker is at a
  place where it holds nothing or the empty payload, one task stays unfinished, and the
  caller is at \<open>self.inputs.join()\<close> or before it.
\<close>

fun stuck_pc :: "wpc \<Rightarrow> bool" where
  "stuck_pc WLoop = True"
| "stuck_pc WCheck = True"
| "stuck_pc WGet = True"
| "stuck_pc (WScan w) = (w = [])"
| "stuck_pc (WExcept w) = (w = [])"
| "stuck_pc (WExceptDone w) = (w = [])"
| "stuck_pc WExit = True"
| "stuck_pc pc = False"

definition inv_stuck :: "ts_state \<Rightarrow> bool" where
  "inv_stuck s =
     (scanapi s = example_api \<and> unfinished s = 1 \<and> 4 \<le> rank (main s) \<and> main s \<noteq> MIdle
      \<and> set (inputs s) \<subseteq> {[]} \<and> list_all stuck_pc (workers s))"



text \<open>A world in which the first \<open>start\<close> succeeds and every later one raises.\<close>

definition one_start_world :: "(nat \<Rightarrow> scan_env) \<Rightarrow> bool \<Rightarrow> world" where
  "one_start_world envs wait =
     \<lparr> w_env = envs, w_start_ok = (\<lambda>i. i = 0), w_ident = (\<lambda>i. int i + 1), w_wait = wait \<rparr>"

section \<open>Properties of the string helpers\<close>

lemma split_nl_nonempty: "split_nl s \<noteq> []"
  by (induction s) (auto split: list.splits)

lemma join_nl_Cons: "ls \<noteq> [] \<Longrightarrow> join_nl (l # ls) = l @ CHR 0x0A # join_nl ls"
  by (cases ls) auto

lemma join_split_nl: "join_nl (split_nl s) = s"
proof (induction s)
  case Nil
  show ?case by simp
next
  case (Cons c cs)
  obtain l ls where sp: "split_nl cs = l # ls"
    using split_nl_nonempty [of cs] by (cases "split_nl cs") auto
  show ?case
  proof (cases "c = CHR 0x0A")
    case True
    then show ?thesis
      using Cons.IH split_nl_nonempty [of cs] by (simp add: join_nl_Cons)
  next
    case False
    have "join_nl ((c # l) # ls) = c # join_nl (l # ls)"
      by (cases ls) auto
    with False sp Cons.IH show ?thesis by simp
  qed
qed

lemma split_nl_no_newline: "l \<in> set (split_nl s) \<Longrightarrow> CHR 0x0A \<notin> set l"
proof (induction s arbitrary: l)
  case Nil
  then show ?case by simp
next
  case (Cons c cs)
  obtain m ms where sp: "split_nl cs = m # ms"
    using split_nl_nonempty [of cs] by (cases "split_nl cs") auto
  have m: "CHR 0x0A \<notin> set m" and ms: "\<And>x. x \<in> set ms \<Longrightarrow> CHR 0x0A \<notin> set x"
    using Cons.IH sp by auto
  show ?case
  proof (cases "c = CHR 0x0A")
    case True
    with Cons.prems Cons.IH show ?thesis by auto
  next
    case False
    with Cons.prems sp have "l = c # m \<or> l \<in> set ms" by auto
    with False m ms show ?thesis by auto
  qed
qed

lemma starts_with_prefix: "starts_with sub s = prefix sub s"
  by (induction sub s rule: starts_with.induct) auto

lemma str_in_sublist: "str_in sub s = sublist sub s"
  by (induction s) (auto simp: starts_with_prefix sublist_Cons_right)

lemma str_in_iff: "str_in sub s \<longleftrightarrow> (\<exists>ps ss. s = ps @ sub @ ss)"
  by (simp add: str_in_sublist sublist_def)

lemma count_lines_filter:
  "count_lines ls n = n + length (filter (str_in WFP_FILE_START) ls)"
  by (induction ls arbitrary: n) auto

section \<open>The retry loop\<close>

lemma init_timeout:
  "ScanossApi_init s rf st sp sf fl u k d tr q t = Inr api \<Longrightarrow>
   api_timeout api = (if t > 5 then t else 120)"
  by (auto simp: ScanossApi_init_def load_sbom_def Let_def split: if_splits option.splits)

lemma attempt_retry:
  "retryable_failure (env_post env retry req) \<Longrightarrow> retry \<le> 5 \<Longrightarrow>
   \<exists>r' eff'. scan_attempt env req retry eff = (Again r', eff')
      \<and> posts eff' = posts eff + 1 \<and> sleeps eff' = sleeps eff @ [5]
      \<and> files_written eff' = files_written eff"
  by (auto simp: scan_attempt_def retryable_failure_def say_def sleep_def Let_def
           split: post_outcome.splits option.splits)

lemma attempt_fatal:
  "failed_attempt (env_post env retry req) \<Longrightarrow> retry > 5 \<Longrightarrow>
   \<exists>e eff'. scan_attempt env req retry eff = (Raise e, eff')
      \<and> posts eff' = posts eff + 1 \<and> sleeps eff' = sleeps eff
      \<and> files_written eff' = files_written eff"
  by (auto simp: scan_attempt_def failed_attempt_def retryable_failure_def say_def sleep_def Let_def
           split: post_outcome.splits option.splits)

lemma attempt_success:
  "env_post env retry req = Returned (Some resp) \<Longrightarrow> resp_ok resp \<Longrightarrow>
   resp_status_code resp < 400 \<Longrightarrow>
   scan_attempt env req retry eff = (Break (Some resp), eff\<lparr>posts := posts eff + 1\<rparr>)"
  by (simp add: scan_attempt_def Let_def)

lemma scan_loop_failures:
  "retry + k \<le> 5 \<Longrightarrow>
   (\<forall>i. retry < i \<and> i \<le> retry + k \<longrightarrow> retryable_failure (env_post env i req)) \<Longrightarrow>
   \<exists>r' eff'. scan_loop env req retry r eff = scan_loop env req (retry + k) r' eff'
      \<and> posts eff' = posts eff + k \<and> sleeps eff' = sleeps eff @ replicate k 5
      \<and> files_written eff' = files_written eff"
proof (induction k arbitrary: retry r eff)
  case 0
  then show ?case by auto
next
  case (Suc k)
  have "retryable_failure (env_post env (retry + 1) req)" and le: "retry + 1 \<le> 5"
    using Suc.prems by auto
  then obtain r1 eff1 where a: "scan_attempt env req (retry + 1) eff = (Again r1, eff1)"
    and e1: "posts eff1 = posts eff + 1" "sleeps eff1 = sleeps eff @ [5]"
            "files_written eff1 = files_written eff"
    using attempt_retry [of env "retry + 1" req eff] by blast
  have step: "scan_loop env req retry r eff = scan_loop env req (retry + 1) r1 eff1"
    using le a by (subst scan_loop.simps) simp
  have "\<exists>r' eff'. scan_loop env req (retry + 1) r1 eff1 = scan_loop env req (retry + 1 + k) r' eff'
      \<and> posts eff' = posts eff1 + k \<and> sleeps eff' = sleeps eff1 @ replicate k 5
      \<and> files_written eff' = files_written eff1"
    using Suc.prems by (intro Suc.IH) auto
  then show ?case
    using step e1 by (auto simp: replicate_append_same)
qed

lemma attempt_effects:
  "scan_attempt env req retry eff = (res, eff') \<Longrightarrow>
   posts eff' = posts eff + 1 \<and> set (sleeps eff') \<subseteq> set (sleeps eff) \<union> {5}
   \<and> files_written eff' = files_written eff"
  by (auto simp: scan_attempt_def say_def sleep_def Let_def
           split: post_outcome.splits option.splits if_splits)

lemma scan_loop_bounds:
  "scan_loop env req retry r eff = (res, eff') \<Longrightarrow>
   posts eff' \<le> posts eff + (6 - retry) \<and> set (sleeps eff') \<subseteq> set (sleeps eff) \<union> {5}
   \<and> files_written eff' = files_written eff"
proof (induction env req retry r eff rule: scan_loop.induct)
  case (1 env req retry r eff)
  show ?case
  proof (cases "retry \<le> 5")
    case False
    with "1.prems" show ?thesis by (auto simp: scan_loop.simps)
  next
    case True
    obtain a eff1 where a: "scan_attempt env req (retry + 1) eff = (a, eff1)"
      by (cases "scan_attempt env req (retry + 1) eff")
    note e1 = attempt_effects [OF a]
    show ?thesis
    proof (cases a)
      case (Raise e)
      with True a "1.prems" have "eff' = eff1" by (simp add: scan_loop.simps)
      with e1 True show ?thesis by auto
    next
      case (Break r')
      with True a "1.prems" have "eff' = eff1" by (simp add: scan_loop.simps)
      with e1 True show ?thesis by auto
    next
      case (Again r')
      with True a "1.prems" have "scan_loop env req (retry + 1) r' eff1 = (res, eff')"
        by (simp add: scan_loop.simps)
      from "1.IH" [OF True a [symmetric] Again this]
      have "posts eff' \<le> posts eff1 + (6 - (retry + 1)) \<and>
            set (sleeps eff') \<subseteq> set (sleeps eff1) \<union> {5} \<and> files_written eff' = files_written eff1"
        by simp
      with e1 True show ?thesis by auto
    qed
  qed
qed

lemma scan_loop_success:
  assumes "k \<le> 5"
    and "\<forall>i. 1 \<le> i \<and> i \<le> k \<longrightarrow> retryable_failure (env_post env i req)"
    and "env_post env (k + 1) req = Returned (Some resp)"
    and "resp_ok resp" and "resp_status_code resp < 400"
  shows "\<exists>eff'. scan_loop env req 0 None no_effects = (Inr (Some resp), eff')
      \<and> posts eff' = k + 1 \<and> sleeps eff' = replicate k 5 \<and> files_written eff' = []"
proof -
  obtain r1 eff1 where l: "scan_loop env req 0 None no_effects = scan_loop env req (0 + k) r1 eff1"
    and e1: "posts eff1 = posts no_effects + k" "sleeps eff1 = sleeps no_effects @ replicate k 5"
            "files_written eff1 = files_written no_effects"
    using scan_loop_failures [of 0 k env req None no_effects] assms(1,2) by auto
  have "scan_loop env req k r1 eff1 = (Inr (Some resp), eff1\<lparr>posts := posts eff1 + 1\<rparr>)"
    using assms(1) attempt_success [OF assms(3,4,5), of eff1]
    by (subst scan_loop.simps) simp
  with l e1 show ?thesis by (simp add: no_effects_def)
qed

lemma scan_loop_exhausted:
  assumes "\<forall>i. 1 \<le> i \<and> i \<le> 6 \<longrightarrow> retryable_failure (env_post env i req)"
  shows "\<exists>e eff'. scan_loop env req 0 None no_effects = (Inl e, eff')
      \<and> posts eff' = 6 \<and> sleeps eff' = replicate 5 5 \<and> files_written eff' = []"
proof -
  obtain r1 eff1 where l: "scan_loop env req 0 None no_effects = scan_loop env req (0 + 5) r1 eff1"
    and e1: "posts eff1 = posts no_effects + 5" "sleeps eff1 = sleeps no_effects @ replicate 5 5"
            "files_written eff1 = files_written no_effects"
    using scan_loop_failures [of 0 5 env req None no_effects] assms by auto
  have "failed_attempt (env_post env 6 req)"
    using assms by (simp add: failed_attempt_def)
  then obtain e eff2 where a: "scan_attempt env req 6 eff1 = (Raise e, eff2)"
    and e2: "posts eff2 = posts eff1 + 1" "sleeps eff2 = sleeps eff1"
            "files_written eff2 = files_written eff1"
    using attempt_fatal [of env 6 req eff1] by auto
  have "scan_loop env req 5 r1 eff1 = (Inl e, eff2)"
    using a by (subst scan_loop.simps) simp
  with l e1 e2 show ?thesis by (simp add: no_effects_def)
qed

lemma scan_loop_all_failed:
  "retry \<le> 5 \<Longrightarrow> (\<forall>i. retry < i \<and> i \<le> 6 \<longrightarrow> failed_attempt (env_post env i req)) \<Longrightarrow>
   \<exists>e. fst (scan_loop env req retry r eff) = Inl e"
proof (induction env req retry r eff rule: scan_loop.induct)
  case (1 env req retry r eff)
  obtain a eff1 where a: "scan_attempt env req (retry + 1) eff = (a, eff1)"
    by (cases "scan_attempt env req (retry + 1) eff")
  have f: "failed_attempt (env_post env (retry + 1) req)"
    using "1.prems" by auto
  show ?case
  proof (cases a)
    case (Raise e)
    with a "1.prems" show ?thesis by (subst scan_loop.simps) simp
  next
    case (Break r')
    with a f have False
      by (auto simp: scan_attempt_def failed_attempt_def retryable_failure_def Let_def
               split: post_outcome.splits option.splits if_splits)
    then show ?thesis ..
  next
    case (Again r')
    have lt: "retry + 1 \<le> 5"
    proof (rule ccontr)
      assume "\<not> retry + 1 \<le> 5"
      then have "retry + 1 > 5" by simp
      with attempt_fatal [OF f this, of eff] a Again show False by auto
    qed
    have "\<exists>e. fst (scan_loop env req (retry + 1) r' eff1) = Inl e"
      using "1.IH" [OF "1.prems"(1) a [symmetric] Again lt] "1.prems"(2) by auto
    moreover have "scan_loop env req retry r eff = scan_loop env req (retry + 1) r' eff1"
      using a Again "1.prems"(1) by (subst scan_loop.simps) simp
    ultimately show ?thesis by simp
  qed
qed

lemma decode_effects:
  "posts (snd (decode_response self env name w scan_id r eff)) = posts eff
   \<and> sleeps (snd (decode_response self env name w scan_id r eff)) = sleeps eff"
  by (simp add: decode_response_def say_def Let_def split: option.splits)

lemma decode_value:
  "resp_ok resp \<Longrightarrow>
   fst (decode_response self env name w scan_id (Some resp) eff) =
     Inr (if str_in ''xml'' (api_scan_format self) then PStr (resp_text resp)
          else case resp_json resp of Some json_resp \<Rightarrow> json_resp | None \<Rightarrow> PNone)"
  by (simp add: decode_response_def Let_def split: option.splits)


lemma scan_bounds:
  "posts (snd (scan self env w context scan_id)) \<le> 6
   \<and> (\<forall>d \<in> set (sleeps (snd (scan self env w context scan_id))). d = 5)"
proof -
  obtain res eff where l:
    "scan_loop env (build_request self env w context) 0 None no_effects = (res, eff)"
    by (cases "scan_loop env (build_request self env w context) 0 None no_effects")
  from scan_loop_bounds [OF l]
  have b: "posts eff \<le> 6" "set (sleeps eff) \<subseteq> {5}"
    by (simp_all add: no_effects_def)
  show ?thesis
  proof (cases res)
    case (Inl e)
    with l b show ?thesis by (auto simp: scan_def)
  next
    case (Inr r)
    with l b decode_effects [of self env "env_uuid_hex env @ ''.wfp''" w scan_id r eff]
    show ?thesis by (auto simp: scan_def)
  qed
qed

lemma scan_success:
  assumes "k \<le> 5"
    and "\<forall>i. 1 \<le> i \<and> i \<le> k \<longrightarrow>
           retryable_failure (env_post env i (build_request self env w context))"
    and "env_post env (k + 1) (build_request self env w context) = Returned (Some resp)"
    and "resp_ok resp" and "resp_status_code resp < 400"
  shows "scan self env w context scan_id =
           decode_response self env (env_uuid_hex env @ ''.wfp'') w scan_id (Some resp)
             (snd (scan_loop env (build_request self env w context) 0 None no_effects))"
    and "posts (snd (scan_loop env (build_request self env w context) 0 None no_effects)) = k + 1"
    and "sleeps (snd (scan_loop env (build_request self env w context) 0 None no_effects))
           = replicate k 5"
    and "files_written (snd (scan_loop env (build_request self env w context) 0 None no_effects))
           = []"
  using scan_loop_success [OF assms] by (auto simp: scan_def)

lemma retry_env_post:
  "env_post retry_env i req = (if i < 5 then ConnectionError else Returned (Some ok_response))"
  by (simp add: retry_env_def example_env_def)

lemma down_env_post: "env_post down_env i req = Timeout"
  by (simp add: down_env_def example_env_def)








section \<open>The invariants of a run are preserved by every step\<close>

lemma total_split: "i < length ws \<Longrightarrow> total f ws = f (ws ! i) + others f i ws"
proof -
  assume a: "i < length ws"
  then have "ws = take i ws @ (ws ! i) # drop (Suc i) ws"
    by (simp add: id_take_nth_drop)
  then have "total f ws = total f (take i ws @ (ws ! i) # drop (Suc i) ws)" by simp
  then show ?thesis by (simp add: total_def others_def ac_simps)
qed

lemma total_upd: "i < length ws \<Longrightarrow> total f (ws[i := pc]) = f pc + others f i ws"
  using total_split [of i "ws[i := pc]" f] by (simp add: others_def)

lemma total_snoc: "total f (ws @ [pc]) = total f ws + f pc"
  by (simp add: total_def)

lemma inv_queue_worker:
  assumes "inv_queue W e s" and "i < length (workers s)"
  shows "inv_queue W e (worker_post W i (workers s ! i) s)"
proof (cases "workers s ! i")
  case WGet
  with assms show ?thesis
    by (cases "inputs s")
       (auto simp: inv_queue_def set_pc_def print_stderr_def total_upd total_split [of i "workers s"])
next
  case (WScan w)
  with assms show ?thesis
    by (cases "fst (scan (scanapi s) (w_env W (api_calls s)) w None (Some (w_ident W i)))")
       (auto simp: inv_queue_def set_pc_def Let_def total_upd total_split [of i "workers s"])
qed (use assms in \<open>auto simp: inv_queue_def set_pc_def print_stderr_def update_bar_def
       total_upd total_split [of i "workers s"]\<close>)

lemma inv_queue_main:
  assumes "inv_queue W e s"
  shows "inv_queue W e (run W (main s) s)"
  using assms
  by (cases "main s")
     (auto simp: inv_queue_def print_debug_def print_stderr_def Let_def total_snoc)

lemma inv_queue_step: "inv_queue W e s \<Longrightarrow> inv_queue W e (step W s t)"
  by (cases t) (simp_all add: inv_queue_worker inv_queue_main)

lemma inv_queue_exec: "inv_queue W e s \<Longrightarrow> inv_queue W e (exec W sched s)"
  unfolding exec_def
  by (induction sched arbitrary: s) (simp_all add: inv_queue_step)

lemma file_total_snoc: "file_total (ws @ [w]) = file_total ws + count_files_in_wfp (Some w)"
  by (simp add: file_total_def)

lemma inv_bar_worker:
  assumes "inv_bar s" and "i < length (workers s)"
  shows "inv_bar (worker_post W i (workers s ! i) s)"
proof (cases "workers s ! i")
  case WGet
  with assms show ?thesis
    by (cases "inputs s")
       (auto simp: inv_bar_def set_pc_def print_stderr_def total_upd total_split [of i "workers s"])
next
  case (WScan w)
  with assms show ?thesis
    by (cases "fst (scan (scanapi s) (w_env W (api_calls s)) w None (Some (w_ident W i)))")
       (auto simp: inv_bar_def set_pc_def Let_def file_total_snoc total_upd
             total_split [of i "workers s"])
qed (use assms in \<open>auto simp: inv_bar_def set_pc_def print_stderr_def update_bar_def
       total_upd total_split [of i "workers s"]\<close>)

lemma inv_bar_main: "inv_bar s \<Longrightarrow> inv_bar (run W (main s) s)"
  by (cases "main s")
     (auto simp: inv_bar_def print_debug_def print_stderr_def Let_def total_snoc)

lemma inv_bar_step: "inv_bar s \<Longrightarrow> inv_bar (step W s t)"
  by (cases t) (simp_all add: inv_bar_worker inv_bar_main)

lemma inv_bar_exec: "inv_bar s \<Longrightarrow> inv_bar (exec W sched s)"
  unfolding exec_def
  by (induction sched arbitrary: s) (simp_all add: inv_bar_step)

lemma inv_post_worker:
  assumes "inv_post q s" and "i < length (workers s)"
  shows "inv_post q (worker_post W i (workers s ! i) s)"
proof (cases "workers s ! i")
  case WGet
  with assms show ?thesis
    by (cases "inputs s")
       (auto simp: inv_post_def set_pc_def print_stderr_def total_upd total_split [of i "workers s"])
next
  case (WScan w)
  with assms show ?thesis
    by (cases "fst (scan (scanapi s) (w_env W (api_calls s)) w None (Some (w_ident W i)))")
       (auto simp: inv_post_def set_pc_def Let_def total_upd total_split [of i "workers s"])
qed (use assms in \<open>auto simp: inv_post_def set_pc_def print_stderr_def update_bar_def
       total_upd total_split [of i "workers s"]\<close>)

lemma inv_post_main: "inv_post q s \<Longrightarrow> inv_post q (run W (main s) s)"
  by (cases "main s")
     (auto simp: inv_post_def print_debug_def print_stderr_def Let_def total_snoc)

lemma inv_post_step: "inv_post q s \<Longrightarrow> inv_post q (step W s t)"
  by (cases t) (simp_all add: inv_post_worker inv_post_main)

lemma inv_post_exec: "inv_post q s \<Longrightarrow> inv_post q (exec W sched s)"
  unfolding exec_def
  by (induction sched arbitrary: s) (simp_all add: inv_post_step)

lemma inv_err_worker:
  assumes "inv_err s" and "inv_queue W e s" and "i < length (workers s)"
  shows "inv_err (worker_post W i (workers s ! i) s)"
proof (cases "workers s ! i")
  case WGet
  with assms show ?thesis
    by (cases "inputs s")
       (auto simp: inv_err_def set_pc_def print_stderr_def total_upd total_split [of i "workers s"])
next
  case (WScan w)
  with assms show ?thesis
    by (cases "fst (scan (scanapi s) (w_env W (api_calls s)) w None (Some (w_ident W i)))")
       (auto simp: inv_err_def set_pc_def Let_def total_upd total_split [of i "workers s"])
next
  case (WDone w)
  with assms(2,3) have "unfinished s \<noteq> 0"
    by (simp add: inv_queue_def total_split [of i "workers s"])
  with WDone assms show ?thesis
    by (auto simp: inv_err_def set_pc_def total_upd total_split [of i "workers s"])
qed (use assms in \<open>auto simp: inv_err_def set_pc_def print_stderr_def update_bar_def
       total_upd total_split [of i "workers s"]\<close>)

lemma inv_err_main: "inv_err s \<Longrightarrow> inv_err (run W (main s) s)"
  by (cases "main s")
     (auto simp: inv_err_def print_debug_def print_stderr_def Let_def total_snoc)

lemma inv_err_step: "inv_err s \<Longrightarrow> inv_queue W e s \<Longrightarrow> inv_err (step W s t)"
  by (cases t) (simp_all add: inv_err_worker inv_err_main)

lemma inv_err_exec: "inv_err s \<Longrightarrow> inv_queue W e s \<Longrightarrow> inv_err (exec W sched s)"
  unfolding exec_def
  by (induction sched arbitrary: s) (simp_all add: inv_err_step inv_queue_step)

lemma foldl_queue_add:
  "foldl queue_add s q = s\<lparr>inputs := inputs s @ q, unfinished := unfinished s + length q\<rparr>"
  by (induction q arbitrary: s) (simp_all add: queue_add_def)

lemma entered_fields:
  "inputs (entered cq api dbg trc qt n q) = cq_inputs cq @ q"
  "unfinished (entered cq api dbg trc qt n q) = length (cq_inputs cq) + cq_undone cq + length q"
  "workers (entered cq api dbg trc qt n q) = []"
  "main (entered cq api dbg trc qt n q) = MRun"
  "leaked (entered cq api dbg trc qt n q) = 0"
  "bar_count (entered cq api dbg trc qt n q) = 0"
  "posted (entered cq api dbg trc qt n q) = []"
  "scanned_ok (entered cq api dbg trc qt n q) = []"
  "scan_failed (entered cq api dbg trc qt n q) = []"
  "errors (entered cq api dbg trc qt n q) = False"
  "err_events (entered cq api dbg trc qt n q) = 0"
  "spawn_failed (entered cq api dbg trc qt n q) = False"
  "output_q (entered cq api dbg trc qt n q) = cq_output cq"
  "stop_event (entered cq api dbg trc qt n q) = False"
  "threads (entered cq api dbg trc qt n q) = []"
  "scanapi (entered cq api dbg trc qt n q) = api"
  "nb_threads (entered cq api dbg trc qt n q) = min n MAX_ALLOWED_THREADS"
  "ts_stderr (entered cq api dbg trc qt n q) =
     (if n > MAX_ALLOWED_THREADS \<and> \<not> qt then [WarnThreadsTooLarge n] else [])"
  by (simp_all add: entered_def loaded_def foldl_queue_add ThreadedScanning_init_def Let_def
        print_msg_def print_stderr_def)

lemma entered_inv:
  "inv_queue W (cq_undone cq) (entered cq api dbg trc qt n q)"
  "inv_bar (entered cq api dbg trc qt n q)"
  "inv_post (cq_inputs cq @ q) (entered cq api dbg trc qt n q)"
  "inv_err (entered cq api dbg trc qt n q)"
  "inv_pool W qt n (cq_inputs cq @ q) (entered cq api dbg trc qt n q)"
  by (simp_all add: inv_queue_def inv_bar_def inv_post_def inv_err_def inv_pool_def
        entered_fields total_def file_total_def)

lemma worker_post_pool:
  "length (workers (worker_post W i pc s)) = length (workers s)"
  "main (worker_post W i pc s) = main s"
  "nb_threads (worker_post W i pc s) = nb_threads s"
  "spawn_failed (worker_post W i pc s) = spawn_failed s"
  "filter is_thread_warning (ts_stderr (worker_post W i pc s)) =
     filter is_thread_warning (ts_stderr s)"
  "length (inputs (worker_post W i pc s)) \<le> length (inputs s)"
  by (cases pc; simp add: set_pc_def print_stderr_def update_bar_def Let_def
        split: list.splits sum.splits)+

lemma worker_post_errors: "errors s \<Longrightarrow> errors (worker_post W i pc s)"
  by (cases pc) (simp_all add: set_pc_def print_stderr_def update_bar_def Let_def
        split: list.splits sum.splits)

lemma inv_pool_worker:
  assumes "inv_pool W qt n q s" and "i < length (workers s)"
  shows "inv_pool W qt n q (worker_post W i (workers s ! i) s)"
  using assms worker_post_errors [of s W i "workers s ! i"]
  by (cases "main s") (auto simp: inv_pool_def worker_post_pool)

lemma inv_pool_main:
  assumes "inv_pool W qt n q s"
  shows "inv_pool W qt n q (run W (main s) s)"
proof (cases "main s")
  case MRun
  with assms show ?thesis
    by (auto simp: inv_pool_def pool_size_def print_debug_def print_stderr_def Let_def)
next
  case (MSpawn i)
  show ?thesis
  proof (cases "int i < nb_threads s")
    case True
    with MSpawn assms show ?thesis
      by (auto simp: inv_pool_def print_stderr_def Let_def less_Suc_eq)
  next
    case False
    have "\<And>j. int j < pool_size n (length q) \<Longrightarrow> j < i"
      using False MSpawn assms by (auto simp: inv_pool_def)
    with False MSpawn assms show ?thesis
      by (auto simp: inv_pool_def)
  qed
qed (use assms in \<open>auto simp: inv_pool_def\<close>)

lemma inv_pool_step: "inv_pool W qt n q s \<Longrightarrow> inv_pool W qt n q (step W s t)"
  by (cases t) (simp_all add: inv_pool_worker inv_pool_main)

lemma inv_pool_exec: "inv_pool W qt n q s \<Longrightarrow> inv_pool W qt n q (exec W sched s)"
  unfolding exec_def
  by (induction sched arbitrary: s) (simp_all add: inv_pool_step)

lemma rank_zero: "rank pc = 0 \<longleftrightarrow> (\<exists>b. pc = MReturned b)"
  by (cases pc) simp_all




section \<open>Concrete runs, step by step\<close>

lemma exec_Cons: "exec W (t # sched) s = exec W sched (step W s t)"
  by (simp add: exec_def)

lemma exec_Nil: "exec W [] s = s"
  by (simp add: exec_def)

lemma scan_down: "fst (scan example_api down_env w None sid) = Inl RequestTimedOut"
  by (simp add: scan_def scan_loop.simps scan_attempt_def down_env_def example_env_def
        no_effects_def say_def sleep_def Let_def)

lemma scan_good: "fst (scan example_api good_env w None sid) = Inr (PDict [(''a.c'', PList [])])"
  by (simp add: scan_def scan_loop.simps scan_attempt_def good_env_def example_env_def
        ok_response_def example_api_def decode_response_def no_effects_def say_def sleep_def Let_def)

lemma exec_append: "exec W (a @ b) s = exec W b (exec W a s)"
  by (simp add: exec_def)

lemmas run_defs = entered_def loaded_def queue_add_def ThreadedScanning_init_def new_queues_def
  MAX_ALLOWED_THREADS_def Let_def print_debug_def print_msg_def print_stderr_def
  example_world_def set_pc_def update_bar_def start_one_def finish_def item_fails_def
  item_succeeds_def exec_Cons exec_Nil exec_append

lemma count_one: "count_files_in_wfp (Some ''file=a'') = 1"
  by (simp add: count_files_in_wfp_def WFP_FILE_START_def)

lemma failing_run:
  "main (exec (example_world (\<lambda>n. down_env) True True) (start_one @ item_fails @ finish)
     (entered new_queues example_api False False False 1 [''file=a''])) = MReturned False"
  "bar_count (exec (example_world (\<lambda>n. down_env) True True) (start_one @ item_fails @ finish)
     (entered new_queues example_api False False False 1 [''file=a''])) = 0"
  "posted (exec (example_world (\<lambda>n. down_env) True True) (start_one @ item_fails @ finish)
     (entered new_queues example_api False False False 1 [''file=a''])) = [''file=a'']"
  "scan_failed (exec (example_world (\<lambda>n. down_env) True True) (start_one @ item_fails @ finish)
     (entered new_queues example_api False False False 1 [''file=a''])) = [''file=a'']"
  "unfinished (exec (example_world (\<lambda>n. down_env) True True) (start_one @ item_fails @ finish)
     (entered new_queues example_api False False False 1 [''file=a''])) = 0"
  by (simp_all add: run_defs scan_down count_one)

lemma mixed_run:
  "main (exec (example_world (\<lambda>n. if n = 0 then down_env else good_env) True True)
     (start_one @ item_fails @ item_succeeds @ finish)
     (entered new_queues example_api False False False 1 [''file=a'', ''file=b''])) = MReturned False"
  "posted (exec (example_world (\<lambda>n. if n = 0 then down_env else good_env) True True)
     (start_one @ item_fails @ item_succeeds @ finish)
     (entered new_queues example_api False False False 1 [''file=a'', ''file=b''])) = [''file=a'', ''file=b'']"
  "output_q (exec (example_world (\<lambda>n. if n = 0 then down_env else good_env) True True)
     (start_one @ item_fails @ item_succeeds @ finish)
     (entered new_queues example_api False False False 1 [''file=a'', ''file=b'']))
     = [PDict [(''a.c'', PList [])]]"
  "scan_failed (exec (example_world (\<lambda>n. if n = 0 then down_env else good_env) True True)
     (start_one @ item_fails @ item_succeeds @ finish)
     (entered new_queues example_api False False False 1 [''file=a'', ''file=b''])) = [''file=a'']"
  by (simp_all add: run_defs scan_down scan_good count_files_in_wfp_def WFP_FILE_START_def)

lemma empty_payload_run:
  "main (exec (example_world (\<lambda>n. down_env) True True) (start_one @ item_fails @ finish)
     (entered new_queues example_api False False False 1 [[]])) = MJoin"
  "workers (exec (example_world (\<lambda>n. down_env) True True) (start_one @ item_fails @ finish)
     (entered new_queues example_api False False False 1 [[]])) = [WLoop]"
  "inputs (exec (example_world (\<lambda>n. down_env) True True) (start_one @ item_fails @ finish)
     (entered new_queues example_api False False False 1 [[]])) = []"
  "unfinished (exec (example_world (\<lambda>n. down_env) True True) (start_one @ item_fails @ finish)
     (entered new_queues example_api False False False 1 [[]])) = 1"
  "posted (exec (example_world (\<lambda>n. down_env) True True) (start_one @ item_fails @ finish)
     (entered new_queues example_api False False False 1 [[]])) = [[]]"
  by (simp_all add: run_defs scan_down count_files_in_wfp_def)

section \<open>The state after the wait for the queue\<close>

lemma total_zero:
  "total in_flight ws = 0 \<Longrightarrow>
   total pending_bar ws = 0 \<and> total to_post ws = {#} \<and> total excepting ws = 0"
proof (induction ws)
  case Nil
  show ?case by (simp add: total_def)
next
  case (Cons pc ws)
  then show ?case by (cases pc) (simp_all add: total_def)
qed

lemma file_total_mset: "mset xs = mset ys \<Longrightarrow> file_total xs = file_total ys"
proof -
  assume a: "mset xs = mset ys"
  have "\<And>zs. file_total zs =
          sum_mset (image_mset (\<lambda>w. count_files_in_wfp (Some w)) (mset zs))"
    by (simp add: file_total_def sum_mset_sum_list [symmetric] del: sum_mset_sum_list)
  with a show ?thesis by simp
qed

lemma file_total_append: "file_total (xs @ ys) = file_total xs + file_total ys"
  by (simp add: file_total_def)

lemma reach_inv:
  "inv_queue W (cq_undone cq) (exec W sched (entered cq api dbg trc qt n q))"
  "inv_bar (exec W sched (entered cq api dbg trc qt n q))"
  "inv_post (cq_inputs cq @ q) (exec W sched (entered cq api dbg trc qt n q))"
  "inv_err (exec W sched (entered cq api dbg trc qt n q))"
  using inv_err_exec [OF entered_inv(4) entered_inv(1)]
  by (simp_all add: inv_queue_exec inv_bar_exec inv_post_exec entered_inv)

lemma drained_facts:
  assumes "drained W (main (exec W sched (entered cq api dbg trc qt n q)))"
  shows "unfinished (exec W sched (entered cq api dbg trc qt n q)) = 0"
    and "inputs (exec W sched (entered cq api dbg trc qt n q)) = []"
    and "leaked (exec W sched (entered cq api dbg trc qt n q)) = 0"
    and "bar_count (exec W sched (entered cq api dbg trc qt n q))
           = file_total (scanned_ok (exec W sched (entered cq api dbg trc qt n q)))"
    and "mset (posted (exec W sched (entered cq api dbg trc qt n q))) = mset (cq_inputs cq @ q)"
    and "mset (scanned_ok (exec W sched (entered cq api dbg trc qt n q)))
           + mset (scan_failed (exec W sched (entered cq api dbg trc qt n q)))
           = mset (cq_inputs cq @ q)"
    and "errors (exec W sched (entered cq api dbg trc qt n q))
           = (scan_failed (exec W sched (entered cq api dbg trc qt n q)) \<noteq> []
              \<or> spawn_failed (exec W sched (entered cq api dbg trc qt n q)))"
proof -
  let ?s = "exec W sched (entered cq api dbg trc qt n q)"
  have iq: "inv_queue W (cq_undone cq) ?s" and ib: "inv_bar ?s"
    and ip: "inv_post (cq_inputs cq @ q) ?s" and ie: "inv_err ?s"
    by (rule reach_inv)+
  have u: "unfinished ?s = 0" and z: "inputs ?s = []" "total in_flight (workers ?s) = 0"
    "leaked ?s = 0"
    using iq assms by (auto simp: inv_queue_def)
  note t = total_zero [OF z(2)]
  show "unfinished ?s = 0" "inputs ?s = []" "leaked ?s = 0" by (rule u, rule z(1), rule z(3))
  show "bar_count ?s = file_total (scanned_ok ?s)"
    using ib t by (simp add: inv_bar_def)
  show p: "mset (posted ?s) = mset (cq_inputs cq @ q)"
    using ip t z by (simp add: inv_post_def)
  show "mset (scanned_ok ?s) + mset (scan_failed ?s) = mset (cq_inputs cq @ q)"
    using ip p by (simp add: inv_post_def)
  show "errors ?s = (scan_failed ?s \<noteq> [] \<or> spawn_failed ?s)"
    using ie t by (auto simp: inv_err_def)
qed



lemma inv_ret_step:
  assumes "inv_ret W s" and "inv_queue W e s"
  shows "inv_ret W (step W s t)"
proof (cases t)
  case Main
  with assms show ?thesis
    by (cases "main s") (auto simp: inv_ret_def print_debug_def print_stderr_def Let_def)
next
  case (Worker i)
  show ?thesis
  proof (cases "i < length (workers s)")
    case False
    with Worker assms show ?thesis by simp
  next
    case True
    show ?thesis
    proof (cases "w_wait W \<and> returned (main s)")
      case False
      then have "w_wait W \<Longrightarrow> (case main s of MReturned b \<Rightarrow> False | _ \<Rightarrow> True)"
        by (cases "main s") simp_all
      with Worker True show ?thesis
        by (cases "main s") (auto simp: inv_ret_def worker_post_pool)
    next
      case r: True
      then have "drained W (main s)" by (cases "main s") simp_all
      with assms(2) True have f: "in_flight (workers s ! i) = 0"
        by (simp add: inv_queue_def total_split [of i "workers s"])
      from r obtain b where b: "main s = MReturned b" by (cases "main s") simp_all
      have "errors (worker_post W i (workers s ! i) s) = errors s"
        using f by (cases "workers s ! i")
          (simp_all add: set_pc_def print_stderr_def split: list.splits)
      with Worker True assms(1) b show ?thesis
        by (simp add: inv_ret_def worker_post_pool)
    qed
  qed
qed

lemma inv_ret_exec:
  "inv_ret W s \<Longrightarrow> inv_queue W e s \<Longrightarrow> inv_ret W (exec W sched s)"
  unfolding exec_def
  by (induction sched arbitrary: s) (simp_all add: inv_ret_step inv_queue_step)

lemma entered_inv_ret: "inv_ret W (entered cq api dbg trc qt n q)"
  by (simp add: inv_ret_def entered_fields)

lemma list_all_update: "list_all P xs \<Longrightarrow> P x \<Longrightarrow> list_all P (xs[i := x])"
  by (induction xs arbitrary: i) (auto split: nat.splits)

lemma inv_stuck_step:
  assumes "inv_stuck s" and "w_wait W" and "\<And>k. w_env W k = down_env"
  shows "inv_stuck (step W s t)"
proof (cases t)
  case Main
  with assms show ?thesis
    by (cases "main s") (auto simp: inv_stuck_def print_debug_def print_stderr_def Let_def)
next
  case (Worker i)
  show ?thesis
  proof (cases "i < length (workers s)")
    case False
    with Worker assms show ?thesis by simp
  next
    case True
    with assms(1) have p: "stuck_pc (workers s ! i)"
      by (simp add: inv_stuck_def list_all_length)
    have "inv_stuck (worker_post W i (workers s ! i) s)"
    proof (cases "workers s ! i")
      case WGet
      with assms(1) show ?thesis
        by (cases "inputs s")
           (auto simp: inv_stuck_def set_pc_def print_stderr_def list_all_update)
    next
      case (WScan w)
      with p assms show ?thesis
        by (simp add: inv_stuck_def set_pc_def scan_down list_all_update)
    qed (use p assms(1) in \<open>auto simp: inv_stuck_def set_pc_def print_stderr_def
           list_all_update\<close>)
    with Worker True show ?thesis by simp
  qed
qed

lemma inv_stuck_exec:
  "inv_stuck s \<Longrightarrow> w_wait W \<Longrightarrow> (\<And>k. w_env W k = down_env) \<Longrightarrow> inv_stuck (exec W sched s)"
  unfolding exec_def
  by (induction sched arbitrary: s) (simp_all add: inv_stuck_step)

lemma entered_inv_stuck: "inv_stuck (entered new_queues example_api dbg trc qt n [[]])"
  by (simp add: inv_stuck_def entered_fields new_queues_def)

lemma good_run:
  "main (exec (example_world (\<lambda>n. good_env) True True) (start_one @ item_succeeds @ finish)
     (entered new_queues example_api False False False 1 [''file=a''])) = MReturned True"
  "scan_failed (exec (example_world (\<lambda>n. good_env) True True) (start_one @ item_succeeds @ finish)
     (entered new_queues example_api False False False 1 [''file=a''])) = []"
  "spawn_failed (exec (example_world (\<lambda>n. good_env) True True) (start_one @ item_succeeds @ finish)
     (entered new_queues example_api False False False 1 [''file=a''])) = False"
  by (simp_all add: run_defs scan_good count_files_in_wfp_def WFP_FILE_START_def)


lemma file_total_examples:
  "file_total [''file=a''] = 1" "file_total [''file=b''] = 1"
  "file_total [''file=a'', ''file=b''] = 2"
  by (simp_all add: file_total_def count_files_in_wfp_def WFP_FILE_START_def)

lemma example_world_wait: "w_wait (example_world envs ok wait) = wait"
  "w_env (example_world envs ok wait) = envs"
  by (simp_all add: example_world_def)






lemma pool_start_fails:
  "main (exec (example_world (\<lambda>n. down_env) False True) [Main, Main]
           (entered new_queues example_api False False False 2 [''file=a'', ''file=b''])) = MWait"
  "workers (exec (example_world (\<lambda>n. down_env) False True) [Main, Main]
           (entered new_queues example_api False False False 2 [''file=a'', ''file=b''])) = []"
  "errors (exec (example_world (\<lambda>n. down_env) False True) [Main, Main]
           (entered new_queues example_api False False False 2 [''file=a'', ''file=b'']))"
  by (simp_all add: run_defs)

lemma pool_starts:
  "main (exec (example_world (\<lambda>n. down_env) True True) [Main, Main, Main, Main]
           (entered new_queues example_api False False False 5 [''file=a'', ''file=b''])) = MWait"
  "ts_stderr (exec (example_world (\<lambda>n. down_env) True True) [Main, Main, Main, Main]
           (entered new_queues example_api False False False 5 [''file=a'', ''file=b''])) = []"
  by (simp_all add: run_defs)




lemma inv_nopool_step:
  assumes "inv_nopool u s" and "0 < u" and "w_wait W" and "\<not> w_start_ok W 0"
  shows "inv_nopool u (step W s t)"
proof (cases t)
  case Main
  with assms show ?thesis
    by (cases "main s") (auto simp: inv_nopool_def print_debug_def print_stderr_def Let_def)
next
  case (Worker i)
  with assms show ?thesis by (simp add: inv_nopool_def)
qed

lemma inv_nopool_exec:
  "inv_nopool u s \<Longrightarrow> 0 < u \<Longrightarrow> w_wait W \<Longrightarrow> \<not> w_start_ok W 0 \<Longrightarrow>
   inv_nopool u (exec W sched s)"
  unfolding exec_def
  by (induction sched arbitrary: s) (simp_all add: inv_nopool_step)

lemma entered_inv_nopool:
  "inv_nopool (length (cq_inputs cq) + cq_undone cq + length q) (entered cq api dbg trc qt n q)"
  by (simp add: inv_nopool_def entered_fields)

lemma return_value_sound:
  "(main (exec W sched (entered cq api dbg trc qt n q)) = MReturn \<longrightarrow>
      main (step W (exec W sched (entered cq api dbg trc qt n q)) Main)
        = MReturned (err_events (exec W sched (entered cq api dbg trc qt n q)) = 0))
   \<and> (w_wait W \<and> main (exec W sched (entered cq api dbg trc qt n q)) = MReturned b \<longrightarrow>
        b = (scan_failed (exec W sched (entered cq api dbg trc qt n q)) = []
             \<and> \<not> spawn_failed (exec W sched (entered cq api dbg trc qt n q))))"
proof -
  let ?s = "exec W sched (entered cq api dbg trc qt n q)"
  have "inv_err ?s" by (rule reach_inv)
  then have e: "errors ?s = (0 < err_events ?s)"
    by (simp add: inv_err_def)
  have 1: "main ?s = MReturn \<longrightarrow> main (step W ?s Main) = MReturned (err_events ?s = 0)"
    using e by auto
  have 2: "b = (scan_failed ?s = [] \<and> \<not> spawn_failed ?s)"
    if w: "w_wait W" and m: "main ?s = MReturned b"
  proof -
    have d: "drained W (main ?s)" using w m by simp
    have "inv_ret W ?s"
      using inv_ret_exec [OF entered_inv_ret entered_inv(1)] by simp
    with w m have "b = (\<not> errors ?s)" by (simp add: inv_ret_def)
    with drained_facts(7) [OF d] show ?thesis by simp
  qed
  from 1 2 show ?thesis by blast
qed

lemma start_failure_returns:
  "main (exec (example_world (\<lambda>n. good_env) False False) [Main, Main, Main, Main]
     (entered new_queues example_api False False False 1 [''file=a''])) = MReturned False"
  "main (exec (one_start_world (\<lambda>n. good_env) True)
     ([Main, Main, Main, Main] @ item_succeeds @ item_succeeds @ finish)
     (entered new_queues example_api False False False 2 [''file=a'', ''file=b'']))
     = MReturned False"
  "spawn_failed (exec (one_start_world (\<lambda>n. good_env) True)
     ([Main, Main, Main, Main] @ item_succeeds @ item_succeeds @ finish)
     (entered new_queues example_api False False False 2 [''file=a'', ''file=b'']))"
  "output_q (exec (one_start_world (\<lambda>n. good_env) True)
     ([Main, Main, Main, Main] @ item_succeeds @ item_succeeds @ finish)
     (entered new_queues example_api False False False 2 [''file=a'', ''file=b'']))
     = [PDict [(''a.c'', PList [])], PDict [(''a.c'', PList [])]]"
  by (simp_all add: run_defs one_start_world_def scan_good count_files_in_wfp_def
        WFP_FILE_START_def)

lemma start_failure_run:
  "main (exec (example_world (\<lambda>n. good_env) False True) [Main, Main, Main, Main, Main]
     (entered new_queues example_api False False False 1 [''file=a''])) = MJoin"
  "ts_stderr (exec (example_world (\<lambda>n. good_env) False True) [Main, Main, Main, Main, Main]
     (entered new_queues example_api False False False 1 [''file=a''])) = [ErrRunningThreaded]"
  "inputs (exec (example_world (\<lambda>n. good_env) False True) [Main, Main, Main, Main, Main]
     (entered new_queues example_api False False False 1 [''file=a''])) = [''file=a'']"
  by (simp_all add: run_defs)

section \<open>The claims of the specification\<close>







text \<open>
  C5, as amended. Once the start-up loop of \<open>run\<close> is over, in every interleaving, with
  the depth of the input queue taken at the call of \<open>run\<close>: the number of worker threads
  started is at most 30 and at most the queue depth; when no \<open>start\<close> raises it equals
  \<open>min(n, 30, depth)\<close> for a requested count \<open>n \<ge> 0\<close> (and is 0 for a negative
  one); when one of the \<open>start\<close> calls that the pool size asks for raises, the number
  is the index of the first \<open>start\<close> that raises, so it is smaller than the pool size,
  and the error flag is set. The warning about a request above 30 is printed exactly
  when quiet mode is off.
\<close>

theorem run_pool_size:
  "\<not> spawning (main (exec W sched (entered cq api dbg trc qt n q)))
   \<longrightarrow> int (length (workers (exec W sched (entered cq api dbg trc qt n q)))) \<le> 30
       \<and> length (workers (exec W sched (entered cq api dbg trc qt n q)))
            \<le> length (cq_inputs cq @ q)
       \<and> int (length (workers (exec W sched (entered cq api dbg trc qt n q))))
            \<le> max 0 (min n (min 30 (int (length (cq_inputs cq @ q)))))
       \<and> ((\<forall>j. w_start_ok W j) \<longrightarrow>
             int (length (workers (exec W sched (entered cq api dbg trc qt n q))))
               = max 0 (min n (min 30 (int (length (cq_inputs cq @ q))))))
       \<and> ((\<forall>j. w_start_ok W j) \<and> 0 \<le> n \<longrightarrow>
             int (length (workers (exec W sched (entered cq api dbg trc qt n q))))
               = min n (min 30 (int (length (cq_inputs cq @ q)))))
       \<and> ((\<exists>j. int j < min n (min 30 (int (length (cq_inputs cq @ q)))) \<and> \<not> w_start_ok W j) \<longrightarrow>
             errors (exec W sched (entered cq api dbg trc qt n q))
             \<and> int (length (workers (exec W sched (entered cq api dbg trc qt n q))))
                 < min n (min 30 (int (length (cq_inputs cq @ q))))
             \<and> \<not> w_start_ok W (length (workers (exec W sched (entered cq api dbg trc qt n q))))
             \<and> (\<forall>j. j < length (workers (exec W sched (entered cq api dbg trc qt n q)))
                    \<longrightarrow> w_start_ok W j))
       \<and> (WarnThreadsTooLarge n \<in> set (ts_stderr (exec W sched (entered cq api dbg trc qt n q)))
            \<longleftrightarrow> 30 < n \<and> \<not> qt)"
proof
  let ?s = "exec W sched (entered cq api dbg trc qt n q)"
  let ?q = "cq_inputs cq @ q"
  assume a: "\<not> spawning (main ?s)"
  have i: "inv_pool W qt n ?q ?s"
    by (rule inv_pool_exec) (rule entered_inv)
  have p: "pool_size n (length ?q) = min n (min 30 (int (length ?q)))"
    by (simp add: pool_size_def MAX_ALLOWED_THREADS_def)
  have w: "filter is_thread_warning (ts_stderr ?s) =
             (if n > 30 \<and> \<not> qt then [WarnThreadsTooLarge n] else [])"
    using i by (simp add: inv_pool_def MAX_ALLOWED_THREADS_def)
  have "WarnThreadsTooLarge n \<in> set (filter is_thread_warning (ts_stderr ?s))
          \<longleftrightarrow> 30 < n \<and> \<not> qt"
    by (simp only: w) simp
  then have 1: "WarnThreadsTooLarge n \<in> set (ts_stderr ?s) \<longleftrightarrow> 30 < n \<and> \<not> qt"
    by simp
  have 2: "int (length (workers ?s)) \<le> max 0 (pool_size n (length ?q))"
    and 3: "spawn_failed ?s \<longleftrightarrow> (\<exists>j. int j < pool_size n (length ?q) \<and> \<not> w_start_ok W j)"
    and 4: "\<not> spawn_failed ?s \<longrightarrow> int (length (workers ?s)) = max 0 (pool_size n (length ?q))"
    and 7: "spawn_failed ?s \<longrightarrow> errors ?s \<and> int (length (workers ?s)) < pool_size n (length ?q)
                \<and> \<not> w_start_ok W (length (workers ?s))"
    and 8: "\<forall>j<length (workers ?s). w_start_ok W j"
    using i a by (cases "main ?s"; simp add: inv_pool_def)+
  from 2 p have 5: "int (length (workers ?s)) \<le> 30" "length (workers ?s) \<le> length ?q"
    by auto
  from 3 4 have 6: "(\<forall>j. w_start_ok W j) \<longrightarrow>
      int (length (workers ?s)) = max 0 (pool_size n (length ?q))"
    by auto
  from 3 7 8 have 9: "(\<exists>j. int j < pool_size n (length ?q) \<and> \<not> w_start_ok W j) \<longrightarrow>
      errors ?s \<and> int (length (workers ?s)) < pool_size n (length ?q)
      \<and> \<not> w_start_ok W (length (workers ?s)) \<and> (\<forall>j. j < length (workers ?s) \<longrightarrow> w_start_ok W j)"
    by blast
  have 10: "int (length (workers ?s)) \<le> max 0 (min n (min 30 (int (length ?q))))"
    using 2 by (simp only: p)
  have 11: "(\<forall>j. w_start_ok W j) \<longrightarrow>
             int (length (workers ?s)) = max 0 (min n (min 30 (int (length ?q))))"
    using 6 by (simp only: p)
  have 12: "(\<forall>j. w_start_ok W j) \<and> 0 \<le> n \<longrightarrow>
             int (length (workers ?s)) = min n (min 30 (int (length ?q)))"
    using 11 by auto
  have 13: "(\<exists>j. int j < min n (min 30 (int (length ?q))) \<and> \<not> w_start_ok W j) \<longrightarrow>
      errors ?s \<and> int (length (workers ?s)) < min n (min 30 (int (length ?q)))
      \<and> \<not> w_start_ok W (length (workers ?s)) \<and> (\<forall>j. j < length (workers ?s) \<longrightarrow> w_start_ok W j)"
    using 9 by (simp only: p)
  show "int (length (workers ?s)) \<le> 30
       \<and> length (workers ?s) \<le> length ?q
       \<and> int (length (workers ?s)) \<le> max 0 (min n (min 30 (int (length ?q))))
       \<and> ((\<forall>j. w_start_ok W j) \<longrightarrow>
             int (length (workers ?s)) = max 0 (min n (min 30 (int (length ?q)))))
       \<and> ((\<forall>j. w_start_ok W j) \<and> 0 \<le> n \<longrightarrow>
             int (length (workers ?s)) = min n (min 30 (int (length ?q))))
       \<and> ((\<exists>j. int j < min n (min 30 (int (length ?q))) \<and> \<not> w_start_ok W j) \<longrightarrow>
             errors ?s
             \<and> int (length (workers ?s)) < min n (min 30 (int (length ?q)))
             \<and> \<not> w_start_ok W (length (workers ?s))
             \<and> (\<forall>j. j < length (workers ?s) \<longrightarrow> w_start_ok W j))
       \<and> (WarnThreadsTooLarge n \<in> set (ts_stderr ?s) \<longleftrightarrow> 30 < n \<and> \<not> qt)"
    using 5 10 11 12 13 1 by (intro conjI)
qed

theorem run_pool_size_witness:
  "main (exec (example_world (\<lambda>n. down_env) True True) [Main, Main, Main, Main]
           (entered new_queues example_api False False False 5 [''file=a'', ''file=b''])) = MWait
   \<and> length (workers (exec (example_world (\<lambda>n. down_env) True True) [Main, Main, Main, Main]
           (entered new_queues example_api False False False 5 [''file=a'', ''file=b'']))) = 2
   \<and> ts_stderr (exec (example_world (\<lambda>n. down_env) True True) [Main, Main, Main, Main]
           (entered new_queues example_api False False False 5 [''file=a'', ''file=b''])) = []
   \<and> main (exec (example_world (\<lambda>n. down_env) False True) [Main, Main]
           (entered new_queues example_api False False False 2 [''file=a'', ''file=b''])) = MWait
   \<and> errors (exec (example_world (\<lambda>n. down_env) False True) [Main, Main]
           (entered new_queues example_api False False False 2 [''file=a'', ''file=b'']))
   \<and> int (length (workers (exec (example_world (\<lambda>n. down_env) False True) [Main, Main]
           (entered new_queues example_api False False False 2 [''file=a'', ''file=b''])))) < 2"
proof -
  let ?W = "example_world (\<lambda>n. down_env) True True"
  let ?s = "exec ?W [Main, Main, Main, Main]
              (entered new_queues example_api False False False 5 [''file=a'', ''file=b''])"
  let ?V = "example_world (\<lambda>n. down_env) False True"
  let ?t = "exec ?V [Main, Main]
              (entered new_queues example_api False False False 2 [''file=a'', ''file=b''])"
  have m: "main ?s = MWait" and e: "ts_stderr ?s = []"
    by (rule pool_starts)+
  have ok: "\<forall>j. w_start_ok ?W j" by (simp add: example_world_def)
  have sp: "\<not> spawning (main ?s)" by (simp add: m)
  have q: "cq_inputs new_queues @ [''file=a'', ''file=b''] = [''file=a'', ''file=b'']"
    by (simp add: new_queues_def)
  from run_pool_size [of ?W "[Main, Main, Main, Main]" new_queues example_api False False False 5
         "[''file=a'', ''file=b'']"] sp ok
  have "int (length (workers ?s))
          = min 5 (min 30 (int (length (cq_inputs new_queues @ [''file=a'', ''file=b'']))))"
    by simp
  then have 1: "length (workers ?s) = 2" by (simp add: q)
  have m': "main ?t = MWait" by (rule pool_start_fails)
  have sp': "\<not> spawning (main ?t)" by (simp add: m')
  have bad: "\<exists>j. int j < min 2 (min 30 (int (length (cq_inputs new_queues @ [''file=a'', ''file=b'']))))
               \<and> \<not> w_start_ok ?V j"
    by (rule exI [of _ 0]) (simp add: q example_world_def)
  from run_pool_size [of ?V "[Main, Main]" new_queues example_api False False False 2
         "[''file=a'', ''file=b'']"] sp' bad
  have "errors ?t \<and> int (length (workers ?t))
          < min 2 (min 30 (int (length (cq_inputs new_queues @ [''file=a'', ''file=b'']))))"
    by blast
  then have 2: "errors ?t" "int (length (workers ?t)) < 2" by (simp_all add: q)
  from m e 1 m' 2 show ?thesis by (intro conjI)
qed

text \<open>
  C5 as stated fails: in quiet mode a request for 31 threads is cut to 30 without any
  warning, and when the first \<open>start\<close> raises no worker runs although
  \<open>min(2, 30, 2) = 2\<close>.
\<close>

theorem run_pool_size_counterexample:
  "nb_threads (entered new_queues example_api False False True 31 []) = 30
   \<and> ts_stderr (entered new_queues example_api False False True 31 []) = []
   \<and> main (exec (example_world (\<lambda>n. down_env) False True) [Main, Main]
           (entered new_queues example_api False False False 2 [''file=a'', ''file=b''])) = MWait
   \<and> workers (exec (example_world (\<lambda>n. down_env) False True) [Main, Main]
           (entered new_queues example_api False False False 2 [''file=a'', ''file=b''])) = []
   \<and> min 2 (min 30 (int (length [''file=a'', ''file=b'']))) = 2"
  by (simp add: run_defs)




text \<open>
  C8, when the first \<open>start\<close> raises. \<open>run\<close> is called with \<open>wait\<close> on a queue that is
  not empty, and the first \<open>start\<close> raises. In every interleaving no worker runs, the
  unfinished tasks stay as many as they were at the call, and \<open>run\<close> never gets past
  \<open>self.inputs.join()\<close>: it does not return, neither \<open>False\<close> nor \<open>True\<close>. Once the
  start-up loop is over the error flag is set exactly when a \<open>start\<close> was tried, that
  is for a requested count above 0. In the run shown last, \<open>run\<close> is called without
  \<open>wait\<close> on the same queue with the same failing \<open>start\<close>, and returns \<open>False\<close>.
\<close>

theorem run_start_failure_blocks:
  "(w_wait W \<and> \<not> w_start_ok W 0
    \<longrightarrow> \<not> returned (main (exec W sched (entered cq api dbg trc qt n (w # q))))
        \<and> workers (exec W sched (entered cq api dbg trc qt n (w # q))) = []
        \<and> posted (exec W sched (entered cq api dbg trc qt n (w # q))) = []
        \<and> unfinished (exec W sched (entered cq api dbg trc qt n (w # q)))
            = length (cq_inputs cq) + cq_undone cq + length q + 1
        \<and> (\<not> spawning (main (exec W sched (entered cq api dbg trc qt n (w # q))))
             \<longrightarrow> errors (exec W sched (entered cq api dbg trc qt n (w # q))) = (0 < n)))
   \<and> main (exec (example_world (\<lambda>n. good_env) False False) [Main, Main, Main, Main]
        (entered new_queues example_api False False False 1 [''file=a''])) = MReturned False"
proof -
  let ?s = "exec W sched (entered cq api dbg trc qt n (w # q))"
  let ?q = "cq_inputs cq @ w # q"
  have c: "main (exec (example_world (\<lambda>n. good_env) False False) [Main, Main, Main, Main]
        (entered new_queues example_api False False False 1 [''file=a''])) = MReturned False"
    by (rule start_failure_returns)
  have g: "\<not> returned (main ?s) \<and> workers ?s = [] \<and> posted ?s = []
        \<and> unfinished ?s = length (cq_inputs cq) + cq_undone cq + length q + 1
        \<and> (\<not> spawning (main ?s) \<longrightarrow> errors ?s = (0 < n))"
    if a: "w_wait W \<and> \<not> w_start_ok W 0"
  proof -
  have "inv_nopool (length (cq_inputs cq) + cq_undone cq + length (w # q)) ?s"
    using a by (intro inv_nopool_exec entered_inv_nopool) simp_all
  then have w: "workers ?s = []" and f: "scan_failed ?s = []" and 2: "posted ?s = []"
    and u: "unfinished ?s = length (cq_inputs cq) + cq_undone cq + length q + 1"
    and r: "4 \<le> rank (main ?s)"
    by (simp_all add: inv_nopool_def)
  from r have 1: "\<not> returned (main ?s)" by (cases "main ?s") simp_all
  have ie: "inv_err ?s"
    by (rule reach_inv)
  have 3: "errors ?s = (0 < n)" if s: "\<not> spawning (main ?s)"
  proof -
    have "inv_pool W qt n ?q ?s"
      by (rule inv_pool_exec) (rule entered_inv)
    with s have sf: "spawn_failed ?s \<longleftrightarrow> (\<exists>j. int j < pool_size n (length ?q) \<and> \<not> w_start_ok W j)"
      and le: "spawn_failed ?s \<longrightarrow> int (length (workers ?s)) < pool_size n (length ?q)"
      by (cases "main ?s"; simp add: inv_pool_def)+
    have "(\<exists>j. int j < pool_size n (length ?q) \<and> \<not> w_start_ok W j) \<longleftrightarrow> 0 < n"
    proof
      assume "\<exists>j. int j < pool_size n (length ?q) \<and> \<not> w_start_ok W j"
      then show "0 < n" by (auto simp: pool_size_def)
    next
      assume "0 < n"
      then have "int 0 < pool_size n (length ?q)"
        by (simp add: pool_size_def MAX_ALLOWED_THREADS_def)
      with a show "\<exists>j. int j < pool_size n (length ?q) \<and> \<not> w_start_ok W j" by blast
    qed
    with sf have "spawn_failed ?s \<longleftrightarrow> 0 < n" by simp
    moreover have "errors ?s = spawn_failed ?s"
      using ie f by (auto simp: inv_err_def w total_def)
    ultimately show ?thesis by simp
  qed
    from 1 w 2 u 3 show ?thesis by blast
  qed
  from g c show ?thesis by blast
qed

theorem run_start_failure_blocks_witness:
  "main (exec (example_world (\<lambda>n. good_env) False True) [Main, Main, Main, Main, Main]
     (entered new_queues example_api False False False 1 [''file=a''])) = MJoin
   \<and> ts_stderr (exec (example_world (\<lambda>n. good_env) False True) [Main, Main, Main, Main, Main]
     (entered new_queues example_api False False False 1 [''file=a''])) = [ErrRunningThreaded]
   \<and> errors (exec (example_world (\<lambda>n. good_env) False True) [Main, Main, Main, Main, Main]
     (entered new_queues example_api False False False 1 [''file=a'']))
   \<and> workers (exec (example_world (\<lambda>n. good_env) False True) [Main, Main, Main, Main, Main]
     (entered new_queues example_api False False False 1 [''file=a''])) = []
   \<and> unfinished (exec (example_world (\<lambda>n. good_env) False True) [Main, Main, Main, Main, Main]
     (entered new_queues example_api False False False 1 [''file=a''])) = 1"
proof -
  let ?W = "example_world (\<lambda>n. good_env) False True"
  let ?s = "exec ?W [Main, Main, Main, Main, Main]
              (entered new_queues example_api False False False 1 [''file=a''])"
  have h: "w_wait ?W \<and> \<not> w_start_ok ?W 0" by (simp add: example_world_def)
  have m: "main ?s = MJoin" and e: "ts_stderr ?s = [ErrRunningThreaded]"
    by (rule start_failure_run)+
  have sp: "\<not> spawning (main ?s)" by (simp add: m)
  from run_start_failure_blocks [of ?W "[Main, Main, Main, Main, Main]" new_queues example_api
         False False False 1 "''file=a''" "[]"] h sp
  have "workers ?s = []
        \<and> unfinished ?s = length (cq_inputs new_queues) + cq_undone new_queues + length ([]::string list) + 1
        \<and> errors ?s = (0 < (1::int))"
    by blast
  then have "workers ?s = []" "unfinished ?s = 1" "errors ?s"
    by (simp_all add: new_queues_def)
  with m e show ?thesis by (intro conjI)
qed

text \<open>
  C9. The derived file count of a payload is the number of its newline-separated lines
  that contain the marker \<open>file=\<close> as a substring, and it is 0 for \<open>None\<close> and for the
  empty payload. The lines of \<open>w\<close> are the pieces \<open>split_nl w\<close>: joined again with line
  feeds they give \<open>w\<close> back, and no piece holds a line feed.
\<close>

theorem count_files_in_wfp_spec:
  "count_files_in_wfp None = 0
   \<and> count_files_in_wfp (Some []) = 0
   \<and> count_files_in_wfp (Some w) =
       length (filter (\<lambda>line. \<exists>ps ss. line = ps @ ''file='' @ ss) (split_nl w))
   \<and> join_nl (split_nl w) = w
   \<and> (\<forall>line \<in> set (split_nl w). CHR 0x0A \<notin> set line)"
proof -
  have f: "str_in WFP_FILE_START = (\<lambda>line. \<exists>ps ss. line = ps @ ''file='' @ ss)"
    by (rule ext) (simp only: str_in_iff WFP_FILE_START_def)
  have "count_files_in_wfp (Some w) = length (filter (str_in WFP_FILE_START) (split_nl w))"
    by (cases w) (simp_all add: count_files_in_wfp_def count_lines_filter WFP_FILE_START_def)
  then have "count_files_in_wfp (Some w) =
       length (filter (\<lambda>line. \<exists>ps ss. line = ps @ ''file='' @ ss) (split_nl w))"
    by (simp only: f)
  moreover have "count_files_in_wfp None = 0" "count_files_in_wfp (Some []) = 0"
    by (simp_all add: count_files_in_wfp_def)
  ultimately show ?thesis
    using join_split_nl [of w] split_nl_no_newline [of _ w] by blast
qed

theorem count_files_in_wfp_spec_witness:
  "length (filter (\<lambda>line. \<exists>ps ss. line = ps @ ''file='' @ ss)
             [''file=a'', ''xfile'', ''a file=b'']) = 2
   \<and> join_nl [''file=a'', ''xfile'', ''a file=b''] =
       ''file=a'' @ [CHR 0x0A] @ ''xfile'' @ [CHR 0x0A] @ ''a file=b''
   \<and> CHR 0x0A \<notin> set ''a file=b''"
  using count_files_in_wfp_spec [of "''file=a'' @ [CHR 0x0A] @ ''xfile'' @ [CHR 0x0A] @ ''a file=b''"]
  by (simp add: count_files_in_wfp_def WFP_FILE_START_def)

text \<open>
  C1. \<open>scan\<close> makes at most 6 POST attempts and every delay between attempts is 5.
  After \<open>k \<le> 5\<close> attempts that fail with a timeout or connection error, a status of
  400 or more, or an empty response object, a successful attempt \<open>k + 1\<close> makes
  \<open>scan\<close> return that response's value without raising, after \<open>k\<close> delays; in
  particular after connection errors on attempts 1 to 4 and success on attempt 5. When
  all 6 attempts fail, \<open>scan\<close> raises.
\<close>

theorem scan_retry_policy:
  "posts (snd (scan self env w context scan_id)) \<le> 6
   \<and> (\<forall>d \<in> set (sleeps (snd (scan self env w context scan_id))). d = 5)
   \<and> (k \<le> 5
        \<and> (\<forall>i. 1 \<le> i \<and> i \<le> k \<longrightarrow>
               retryable_failure (env_post env i (build_request self env w context)))
        \<and> env_post env (k + 1) (build_request self env w context) = Returned (Some resp)
        \<and> resp_ok resp \<and> resp_status_code resp < 400
      \<longrightarrow> fst (scan self env w context scan_id) =
            Inr (if str_in ''xml'' (api_scan_format self) then PStr (resp_text resp)
                 else case resp_json resp of Some json_resp \<Rightarrow> json_resp | None \<Rightarrow> PNone)
          \<and> posts (snd (scan self env w context scan_id)) = k + 1
          \<and> sleeps (snd (scan self env w context scan_id)) = replicate k 5)
   \<and> ((\<forall>i. 1 \<le> i \<and> i \<le> 4 \<longrightarrow>
               env_post env i (build_request self env w context) = ConnectionError)
        \<and> env_post env 5 (build_request self env w context) = Returned (Some resp)
        \<and> resp_ok resp \<and> resp_status_code resp < 400
      \<longrightarrow> fst (scan self env w context scan_id) =
            Inr (if str_in ''xml'' (api_scan_format self) then PStr (resp_text resp)
                 else case resp_json resp of Some json_resp \<Rightarrow> json_resp | None \<Rightarrow> PNone)
          \<and> posts (snd (scan self env w context scan_id)) = 5
          \<and> sleeps (snd (scan self env w context scan_id)) = [5, 5, 5, 5])
   \<and> ((\<forall>i. 1 \<le> i \<and> i \<le> 6 \<longrightarrow>
               failed_attempt (env_post env i (build_request self env w context)))
      \<longrightarrow> (\<exists>e. fst (scan self env w context scan_id) = Inl e))
   \<and> ((\<forall>i. 1 \<le> i \<and> i \<le> 6 \<longrightarrow>
               retryable_failure (env_post env i (build_request self env w context)))
      \<longrightarrow> posts (snd (scan self env w context scan_id)) = 6
          \<and> sleeps (snd (scan self env w context scan_id)) = [5, 5, 5, 5, 5])"
proof -
  let ?req = "build_request self env w context"
  let ?res = "scan self env w context scan_id"
  let ?val = "Inr (if str_in ''xml'' (api_scan_format self) then PStr (resp_text resp)
                 else case resp_json resp of Some json_resp \<Rightarrow> json_resp | None \<Rightarrow> PNone)"
  have general: "fst ?res = ?val \<and> posts (snd ?res) = j + 1 \<and> sleeps (snd ?res) = replicate j 5"
    if "j \<le> 5" "\<forall>i. 1 \<le> i \<and> i \<le> j \<longrightarrow> retryable_failure (env_post env i ?req)"
       "env_post env (j + 1) ?req = Returned (Some resp)" "resp_ok resp"
       "resp_status_code resp < 400" for j
    using scan_success [OF that] decode_value [OF that(4)]
          decode_effects [of self env "env_uuid_hex env @ ''.wfp''" w scan_id "Some resp"]
    by simp
  have four: "fst ?res = ?val \<and> posts (snd ?res) = 5 \<and> sleeps (snd ?res) = [5, 5, 5, 5]"
    if "\<forall>i. 1 \<le> i \<and> i \<le> 4 \<longrightarrow> env_post env i ?req = ConnectionError"
       "env_post env 5 ?req = Returned (Some resp)" "resp_ok resp" "resp_status_code resp < 400"
  proof -
    have "\<forall>i. 1 \<le> i \<and> i \<le> 4 \<longrightarrow> retryable_failure (env_post env i ?req)"
      using that(1) by (simp add: retryable_failure_def)
    from general [of 4, OF _ this] that(2,3,4) show ?thesis
      by (simp add: numeral_eq_Suc)
  qed
  have raises: "\<exists>e. fst ?res = Inl e"
    if "\<forall>i. 1 \<le> i \<and> i \<le> 6 \<longrightarrow> failed_attempt (env_post env i ?req)"
  proof -
    from scan_loop_all_failed [of 0 env ?req None no_effects] that
    obtain e where "fst (scan_loop env ?req 0 None no_effects) = Inl e" by auto
    then show ?thesis
      by (cases "scan_loop env ?req 0 None no_effects") (auto simp: scan_def)
  qed
  have exh: "posts (snd ?res) = 6 \<and> sleeps (snd ?res) = [5, 5, 5, 5, 5]"
    if "\<forall>i. 1 \<le> i \<and> i \<le> 6 \<longrightarrow> retryable_failure (env_post env i ?req)"
    using scan_loop_exhausted [OF that] by (auto simp: scan_def numeral_eq_Suc)
  from scan_bounds [of self env w _ scan_id] general [of k] four raises exh
  show ?thesis by blast
qed

theorem scan_retry_policy_witness:
  "fst (scan example_api retry_env ''file=abc'' None (Some 7)) = Inr (PDict [(''a.c'', PList [])])
   \<and> posts (snd (scan example_api retry_env ''file=abc'' None (Some 7))) = 5
   \<and> sleeps (snd (scan example_api retry_env ''file=abc'' None (Some 7))) = [5, 5, 5, 5]
   \<and> (\<exists>e. fst (scan example_api down_env ''file=abc'' None (Some 7)) = Inl e)
   \<and> posts (snd (scan example_api down_env ''file=abc'' None (Some 7))) = 6"
proof -
  let ?req = "build_request example_api retry_env ''file=abc'' None"
  let ?dreq = "build_request example_api down_env ''file=abc'' None"
  have b: "\<forall>i. 1 \<le> i \<and> i \<le> 4 \<longrightarrow> env_post retry_env i ?req = ConnectionError"
    by (simp add: retry_env_post)
  have c: "env_post retry_env 5 ?req = Returned (Some ok_response)"
    by (simp add: retry_env_post)
  have d: "resp_ok ok_response" "resp_status_code ok_response < 400"
    by (simp_all add: ok_response_def)
  have f: "\<forall>i. 1 \<le> i \<and> i \<le> 6 \<longrightarrow> failed_attempt (env_post down_env i ?dreq)"
    by (simp add: down_env_post failed_attempt_def retryable_failure_def)
  have g: "\<forall>i. 1 \<le> i \<and> i \<le> 6 \<longrightarrow> retryable_failure (env_post down_env i ?dreq)"
    by (simp add: down_env_post retryable_failure_def)
  have v: "(if str_in ''xml'' (api_scan_format example_api) then PStr (resp_text ok_response)
            else case resp_json ok_response of Some json_resp \<Rightarrow> json_resp | None \<Rightarrow> PNone)
           = PDict [(''a.c'', PList [])]"
    by (simp add: example_api_def ok_response_def)
  from scan_retry_policy [of example_api retry_env "''file=abc''" None "Some 7" 0 ok_response]
       b c d
  have 1: "fst (scan example_api retry_env ''file=abc'' None (Some 7)) =
            Inr (if str_in ''xml'' (api_scan_format example_api) then PStr (resp_text ok_response)
                 else case resp_json ok_response of Some json_resp \<Rightarrow> json_resp | None \<Rightarrow> PNone)
          \<and> posts (snd (scan example_api retry_env ''file=abc'' None (Some 7))) = 5
          \<and> sleeps (snd (scan example_api retry_env ''file=abc'' None (Some 7))) = [5, 5, 5, 5]"
    by blast
  from scan_retry_policy [of example_api down_env "''file=abc''" None "Some 7" 0 ok_response]
       f g
  have 2: "(\<exists>e. fst (scan example_api down_env ''file=abc'' None (Some 7)) = Inl e)
          \<and> posts (snd (scan example_api down_env ''file=abc'' None (Some 7))) = 6"
    by blast
  from 1 2 show ?thesis by (simp only: v) 
qed

text \<open>
  C7, at the input 5. The constructor keeps a timeout only when it is greater than 5, so
  the value 5 is replaced by 120, although the command line's own check (cli.py) counts
  only values below 5 as too small.
\<close>

theorem scan_timeout_five:
  "(\<exists>api. ScanossApi_init scanoss_scan_url read_file scan_type None scan_format flags url key
             dbg trc qt 5 = Inr api
          \<and> api_timeout api = 120)
   \<and> \<not> cli_timeout_too_small 5"
  by (simp add: ScanossApi_init_def load_sbom_def cli_timeout_too_small_def)

text \<open>
  C2, as amended. The progress total never exceeds the file counts of the payloads for
  which \<open>scan\<close> has returned. Once the queue has been waited for (and so when \<open>run\<close>,
  called with \<open>wait\<close>, has returned), every queued payload has been dequeued and handed
  to \<open>scan\<close>, and the total equals the sum of the file counts of the payloads for which
  \<open>scan\<close> returned; the payloads for which it raised contribute nothing. The queued
  payloads are those the queue of the class held when the object was created, followed
  by those added to it.
\<close>

theorem run_progress_total:
  "bar_count (exec W sched (entered cq api dbg trc qt n q))
     \<le> file_total (scanned_ok (exec W sched (entered cq api dbg trc qt n q)))
   \<and> (drained W (main (exec W sched (entered cq api dbg trc qt n q))) \<longrightarrow>
         bar_count (exec W sched (entered cq api dbg trc qt n q))
           = file_total (scanned_ok (exec W sched (entered cq api dbg trc qt n q)))
         \<and> mset (posted (exec W sched (entered cq api dbg trc qt n q))) = mset (cq_inputs cq @ q)
         \<and> mset (scanned_ok (exec W sched (entered cq api dbg trc qt n q)))
             + mset (scan_failed (exec W sched (entered cq api dbg trc qt n q))) = mset (cq_inputs cq @ q)
         \<and> bar_count (exec W sched (entered cq api dbg trc qt n q))
             + file_total (scan_failed (exec W sched (entered cq api dbg trc qt n q)))
             = file_total (cq_inputs cq @ q))"
proof -
  let ?s = "exec W sched (entered cq api dbg trc qt n q)"
  have 1: "bar_count ?s \<le> file_total (scanned_ok ?s)"
    using reach_inv(2) [where W = W and sched = sched and cq = cq and api = api and dbg = dbg
        and trc = trc and qt = qt and n = n and q = q]
    by (simp add: inv_bar_def)
  have 2: "bar_count ?s = file_total (scanned_ok ?s) \<and> mset (posted ?s) = mset (cq_inputs cq @ q)
         \<and> mset (scanned_ok ?s) + mset (scan_failed ?s) = mset (cq_inputs cq @ q)
         \<and> bar_count ?s + file_total (scan_failed ?s) = file_total (cq_inputs cq @ q)"
    if d: "drained W (main ?s)"
  proof -
    note f = drained_facts [OF d]
    have "mset (scanned_ok ?s @ scan_failed ?s) = mset (cq_inputs cq @ q)" using f(6) by simp
    then have "file_total (scanned_ok ?s @ scan_failed ?s) = file_total (cq_inputs cq @ q)"
      by (rule file_total_mset)
    with f(4,5,6) show ?thesis by (simp add: file_total_append)
  qed
  from 1 2 show ?thesis by blast
qed

theorem run_progress_total_witness:
  "main (exec (example_world (\<lambda>n. if n = 0 then down_env else good_env) True True)
     (start_one @ item_fails @ item_succeeds @ finish)
     (entered new_queues example_api False False False 1 [''file=a'', ''file=b''])) = MReturned False
   \<and> bar_count (exec (example_world (\<lambda>n. if n = 0 then down_env else good_env) True True)
     (start_one @ item_fails @ item_succeeds @ finish)
     (entered new_queues example_api False False False 1 [''file=a'', ''file=b''])) = 1"
proof -
  let ?W = "example_world (\<lambda>n. if n = 0 then down_env else good_env) True True"
  let ?s = "exec ?W (start_one @ item_fails @ item_succeeds @ finish)
              (entered new_queues example_api False False False 1 [''file=a'', ''file=b''])"
  have m: "main ?s = MReturned False" and f: "scan_failed ?s = [''file=a'']"
    by (rule mixed_run)+
  have d: "drained ?W (main ?s)"
    by (simp add: m example_world_wait)
  have q: "cq_inputs new_queues @ [''file=a'', ''file=b''] = [''file=a'', ''file=b'']"
    by (simp add: new_queues_def)
  from run_progress_total [of ?W "start_one @ item_fails @ item_succeeds @ finish"
      new_queues example_api False False False 1 "[''file=a'', ''file=b'']"] d
  have "bar_count ?s + file_total (scan_failed ?s)
          = file_total (cq_inputs new_queues @ [''file=a'', ''file=b''])"
    by blast
  then have "bar_count ?s = 1"
    by (simp add: f q file_total_examples)
  with m show ?thesis by (intro conjI)
qed

text \<open>
  C2 as stated fails: one payload with one file whose \<open>scan\<close> raises is dequeued, and
  \<open>run\<close> returns with a progress total of 0, not 1.
\<close>

theorem run_progress_total_counterexample:
  "main (exec (example_world (\<lambda>n. down_env) True True) (start_one @ item_fails @ finish)
     (entered new_queues example_api False False False 1 [''file=a''])) = MReturned False
   \<and> posted (exec (example_world (\<lambda>n. down_env) True True) (start_one @ item_fails @ finish)
     (entered new_queues example_api False False False 1 [''file=a''])) = [''file=a'']
   \<and> file_total [''file=a''] = 1
   \<and> bar_count (exec (example_world (\<lambda>n. down_env) True True) (start_one @ item_fails @ finish)
     (entered new_queues example_api False False False 1 [''file=a''])) = 0"
  by (simp add: failing_run file_total_examples)

text \<open>
  C3, at the empty payload. With the queue \<open>['']\<close> and a \<open>scan\<close> that raises, the
  handler's test \<open>if wfp:\<close> is false, \<open>task_done\<close> is never called, the count of
  unfinished tasks stays 1 in every interleaving, and \<open>run\<close> never gets past
  \<open>self.inputs.join()\<close>: it does not return. In the run shown the worker has dequeued
  the payload, handed it to \<open>scan\<close> and is back at the head of its loop.
\<close>

theorem run_empty_payload_blocks:
  "\<not> returned (main (exec (example_world (\<lambda>k. down_env) ok True) sched
                        (entered new_queues example_api dbg trc qt n [[]])))
   \<and> \<not> drained (example_world (\<lambda>k. down_env) ok True)
          (main (exec (example_world (\<lambda>k. down_env) ok True) sched
                   (entered new_queues example_api dbg trc qt n [[]])))
   \<and> unfinished (exec (example_world (\<lambda>k. down_env) ok True) sched
                    (entered new_queues example_api dbg trc qt n [[]])) = 1
   \<and> posted (exec (example_world (\<lambda>n. down_env) True True) (start_one @ item_fails @ finish)
               (entered new_queues example_api False False False 1 [[]])) = [[]]
   \<and> workers (exec (example_world (\<lambda>n. down_env) True True) (start_one @ item_fails @ finish)
               (entered new_queues example_api False False False 1 [[]])) = [WLoop]
   \<and> inputs (exec (example_world (\<lambda>n. down_env) True True) (start_one @ item_fails @ finish)
               (entered new_queues example_api False False False 1 [[]])) = []
   \<and> main (exec (example_world (\<lambda>n. down_env) True True) (start_one @ item_fails @ finish)
               (entered new_queues example_api False False False 1 [[]])) = MJoin"
proof -
  let ?W = "example_world (\<lambda>k. down_env) ok True"
  let ?s = "exec ?W sched (entered new_queues example_api dbg trc qt n [[]])"
  have "inv_stuck ?s"
    by (rule inv_stuck_exec) (simp_all add: entered_inv_stuck example_world_wait)
  then have u: "unfinished ?s = 1" and r: "4 \<le> rank (main ?s)"
    by (simp_all add: inv_stuck_def)
  from r have "\<not> returned (main ?s)" "\<not> drained ?W (main ?s)"
    by (cases "main ?s"; simp)+
  with u empty_payload_run show ?thesis by simp
qed

end
